theory Spec2Isabelle
  imports Main "HOL-Library.Word"
begin

unbundle bit_operations_syntax

section \<open>Go values: machine integers, slices, run-time panics\<close>

text \<open>
  The embedding follows \<^verbatim>\<open>freetype/truetype/glyph.go\<close>. Go's fixed-width integers are
  words: \<^verbatim>\<open>byte\<close> is \<open>8 word\<close>, \<^verbatim>\<open>int16\<close>/\<^verbatim>\<open>uint16\<close> are \<open>16 word\<close>,
  \<^verbatim>\<open>int32\<close>/\<^verbatim>\<open>uint32\<close> are \<open>32 word\<close>; arithmetic wraps, a conversion that widens
  an unsigned value is \<open>ucast\<close>, one that widens a signed value is \<open>scast\<close>.
  Go's \<^verbatim>\<open>int\<close> (64 bit) is used for offsets, lengths and indices only; these are
  bounded by the size of the font data, so they are \<open>nat\<close> (or \<open>int\<close> where the code
  can see a negative value) without wrap-around.
\<close>

type_synonym byte = "8 word"
type_synonym int16 = "16 word"
type_synonym uint16 = "16 word"
type_synonym int32 = "32 word"
type_synonym uint32 = "32 word"

text \<open>
  A run-time panic (a failed bounds check) ends the whole call: it is the \<open>Inl\<close> of
  every result type. An \<^verbatim>\<open>error\<close> that a function returns is a value beside the
  state it leaves behind. \<open>OtherError\<close> stands for the errors of the hinting
  collaborator.
\<close>

datatype panic = IndexOutOfRange | SliceBoundsOutOfRange

datatype error = UnsupportedError string | OtherError string

text \<open>
  A Go slice is the elements it shows (\<open>elts\<close>, as many as its length) and the rest of
  its backing array up to its capacity (\<open>spare\<close>), which a later reslice can show
  again.
\<close>

record 'a slice =
  elts :: "'a list"
  spare :: "'a list"

definition len :: "'a slice \<Rightarrow> nat" where
  "len s = length (elts s)"

definition cap :: "'a slice \<Rightarrow> nat" where
  "cap s = length (elts s) + length (spare s)"

text \<open>\<^verbatim>\<open>s[i]\<close>: index out of range panics.\<close>

definition idx :: "'a slice \<Rightarrow> nat \<Rightarrow> panic + 'a" where
  "idx s i = (if i < length (elts s) then Inr (elts s ! i) else Inl IndexOutOfRange)"

text \<open>\<^verbatim>\<open>s[a:b]\<close>: needs \<open>a \<le> b \<le> cap s\<close>; the result starts at \<open>a\<close> and keeps the
  rest of the backing array as its capacity.\<close>

definition reslice :: "'a slice \<Rightarrow> nat \<Rightarrow> nat \<Rightarrow> panic + 'a slice" where
  "reslice s a b =
     (if a \<le> b \<and> b \<le> cap s
      then Inr \<lparr>elts = take (b - a) (drop a (elts s @ spare s)),
                spare = drop b (elts s @ spare s)\<rparr>
      else Inl SliceBoundsOutOfRange)"

text \<open>\<^verbatim>\<open>make([]T, n, c)\<close> with \<open>n \<le> c\<close>: all elements are the zero value \<open>z\<close>.\<close>

definition make_slice :: "'a \<Rightarrow> nat \<Rightarrow> nat \<Rightarrow> 'a slice" where
  "make_slice z n c = \<lparr>elts = replicate n z, spare = replicate (c - n) z\<rparr>"

text \<open>\<^verbatim>\<open>copy(dst, src)\<close>: the first \<open>min (len dst) (len src)\<close> elements.\<close>

definition copy_slice :: "'a slice \<Rightarrow> 'a slice \<Rightarrow> 'a slice" where
  "copy_slice dst src =
     dst\<lparr>elts := take (length (elts dst)) (elts src) @ drop (length (elts src)) (elts dst)\<rparr>"

text \<open>
  Modelled from the spec: the big-endian readers \<^verbatim>\<open>u16\<close> and \<^verbatim>\<open>u32\<close> of the font
  package are not in \<^verbatim>\<open>glyph.go\<close>; the format stores a 16-bit value as two bytes and a
  32-bit value as four bytes, most significant first. Reading past the length panics.
\<close>

definition u16 :: "byte slice \<Rightarrow> nat \<Rightarrow> panic + uint16" where
  "u16 b i =
     (case idx b i of Inl p \<Rightarrow> Inl p | Inr b0 \<Rightarrow>
      case idx b (i + 1) of Inl p \<Rightarrow> Inl p | Inr b1 \<Rightarrow>
        Inr (push_bit 8 (ucast b0) OR ucast b1))"

definition u32 :: "byte slice \<Rightarrow> nat \<Rightarrow> panic + uint32" where
  "u32 b i =
     (case idx b i of Inl p \<Rightarrow> Inl p | Inr b0 \<Rightarrow>
      case idx b (i + 1) of Inl p \<Rightarrow> Inl p | Inr b1 \<Rightarrow>
      case idx b (i + 2) of Inl p \<Rightarrow> Inl p | Inr b2 \<Rightarrow>
      case idx b (i + 3) of Inl p \<Rightarrow> Inl p | Inr b3 \<Rightarrow>
        Inr (push_bit 24 (ucast b0) OR push_bit 16 (ucast b1) OR push_bit 8 (ucast b2) OR ucast b3))"

section \<open>The glyph buffer\<close>

record Point =
  X :: int32
  Y :: int32
  Flags :: uint32

record Bounds =
  XMin :: int32
  YMin :: int32
  XMax :: int32
  YMax :: int32

text \<open>
  \<open>Point\<close> and \<open>End\<close> are slices with their capacity, which \<^verbatim>\<open>load\<close> compares. The
  capacity of \<open>Unhinted\<close>, \<open>InFontUnits\<close> and \<open>Twilight\<close> is never read by this file
  (they are only truncated to length 0 and appended to), so they are the lists of
  their elements.
\<close>

record GlyphBuf =
  B :: Bounds
  Point :: "Point slice"
  Unhinted :: "Point list"
  InFontUnits :: "Point list"
  Twilight :: "Point list"
  End :: "int slice"

definition zeroPoint :: Point where
  "zeroPoint = \<lparr>X = 0, Y = 0, Flags = 0\<rparr>"

definition zeroBounds :: Bounds where
  "zeroBounds = \<lparr>XMin = 0, YMin = 0, XMax = 0, YMax = 0\<rparr>"

text \<open>\<^verbatim>\<open>NewGlyphBuf\<close>: room for 256 points and 32 contours.\<close>

definition NewGlyphBuf :: GlyphBuf where
  "NewGlyphBuf =
     \<lparr>B = zeroBounds, Point = make_slice zeroPoint 0 256, Unhinted = [], InFontUnits = [],
      Twilight = [], End = make_slice 0 0 32\<rparr>"

subsection \<open>Flags of a glyph's points\<close>

definition flagOnCurve :: uint32 where "flagOnCurve = 1"
definition flagXShortVector :: uint32 where "flagXShortVector = 2"
definition flagYShortVector :: uint32 where "flagYShortVector = 4"
definition flagRepeat :: uint32 where "flagRepeat = 8"
definition flagPositiveXShortVector :: uint32 where "flagPositiveXShortVector = 16"
definition flagPositiveYShortVector :: uint32 where "flagPositiveYShortVector = 32"
definition flagThisXIsSame :: uint32 where "flagThisXIsSame = flagPositiveXShortVector"
definition flagThisYIsSame :: uint32 where "flagThisYIsSame = flagPositiveYShortVector"

section \<open>decodeFlags\<close>

text \<open>\<^verbatim>\<open>g.Point[i].Flags = c\<close>, with Go's bounds check.\<close>

definition setFlags :: "Point slice \<Rightarrow> nat \<Rightarrow> uint32 \<Rightarrow> panic + Point slice" where
  "setFlags ps i c =
     (if i < length (elts ps)
      then Inr (ps\<lparr>elts := (elts ps)[i := (elts ps ! i)\<lparr>Flags := c\<rparr>]\<rparr>)
      else Inl IndexOutOfRange)"

text \<open>The inner loop \<^verbatim>\<open>for ; count > 0; count-- { g.Point[i].Flags = c; i++ }\<close>; the
  byte \<open>count\<close> is read as the number of rounds it stands for.\<close>

fun decodeFlags_repeat :: "uint32 \<Rightarrow> nat \<Rightarrow> nat \<Rightarrow> Point slice \<Rightarrow> panic + (Point slice \<times> nat)" where
  "decodeFlags_repeat c 0 i ps = Inr (ps, i)"
| "decodeFlags_repeat c (Suc count) i ps =
     (case setFlags ps i c of
        Inl p \<Rightarrow> Inl p
      | Inr ps' \<Rightarrow> decodeFlags_repeat c count (i + 1) ps')"

text \<open>The outer loop \<^verbatim>\<open>for i := np0; i < len(g.Point); { ... }\<close>. The receiver's only
  field in use is \<open>g.Point\<close>, here \<open>ps\<close>; the result is the new \<open>g.Point\<close> and the
  offset returned.\<close>

function decodeFlags_loop :: "byte slice \<Rightarrow> nat \<Rightarrow> nat \<Rightarrow> Point slice \<Rightarrow> panic + (Point slice \<times> nat)" where
  "decodeFlags_loop d offset i ps =
     (if i < len ps then
        (case idx d offset of
           Inl p \<Rightarrow> Inl p
         | Inr b \<Rightarrow>
            (case setFlags ps i (ucast b) of
               Inl p \<Rightarrow> Inl p
             | Inr ps1 \<Rightarrow>
                if (ucast b :: uint32) AND flagRepeat \<noteq> 0 then
                  (case idx d (offset + 1) of
                     Inl p \<Rightarrow> Inl p
                   | Inr count \<Rightarrow>
                      (case decodeFlags_repeat (ucast b) (unat count) (i + 1) ps1 of
                         Inl p \<Rightarrow> Inl p
                       | Inr (ps2, i2) \<Rightarrow> decodeFlags_loop d (offset + 2) i2 ps2))
                else decodeFlags_loop d (offset + 1) (i + 1) ps1))
      else Inr (ps, offset))"
  by pat_completeness auto
termination
proof (relation "measure (\<lambda>(d, offset, i, ps). len ps - i)")
  have rep: "decodeFlags_repeat c n i ps = Inr (ps', i') \<Longrightarrow> i' = i + n \<and> len ps' = len ps"
    for c n i ps ps' i'
  proof (induction n arbitrary: i ps)
    case 0
    then show ?case by simp
  next
    case (Suc n)
    from Suc.prems obtain ps1 where s: "setFlags ps i c = Inr ps1"
      and r: "decodeFlags_repeat c n (i + 1) ps1 = Inr (ps', i')"
      by (auto split: sum.splits)
    from s have "len ps1 = len ps"
      by (auto simp: setFlags_def len_def split: if_splits)
    with Suc.IH [OF r] show ?case by simp
  qed
  show "wf (measure (\<lambda>(d, offset, i, ps). len ps - i))"
    by simp
  show "((d, offset + 2, i2, ps2), d, offset, i, ps)
          \<in> measure (\<lambda>(d, offset, i, ps). len ps - i)"
    if "i < len ps" "setFlags ps i (ucast b) = Inr ps1"
      "decodeFlags_repeat (ucast b) (unat count) (i + 1) ps1 = Inr x" "(ps2, i2) = x"
    for d offset i ps b ps1 count x ps2 i2
    using that rep [of "ucast b" "unat count" "i + 1" ps1 ps2 i2]
    by (auto simp: setFlags_def len_def split: if_splits)
  show "((d, offset + 1, i + 1, ps1), d, offset, i, ps)
          \<in> measure (\<lambda>(d, offset, i, ps). len ps - i)"
    if "i < len ps" "setFlags ps i (ucast b) = Inr ps1"
    for d offset i ps b ps1
    using that by (auto simp: setFlags_def len_def split: if_splits)
qed

definition decodeFlags :: "byte slice \<Rightarrow> nat \<Rightarrow> nat \<Rightarrow> Point slice \<Rightarrow> panic + (Point slice \<times> nat)" where
  "decodeFlags d offset np0 ps = decodeFlags_loop d offset np0 ps"

section \<open>decodeCoords\<close>

text \<open>The first loop: the X co-ordinates, with the \<^verbatim>\<open>int16\<close> accumulator \<open>x\<close>.\<close>

function decodeCoords_x :: "byte slice \<Rightarrow> nat \<Rightarrow> int16 \<Rightarrow> nat \<Rightarrow> Point slice \<Rightarrow> panic + (Point slice \<times> nat)" where
  "decodeCoords_x d offset x i ps =
     (if i < len ps then
        (let f = Flags (elts ps ! i) in
         case (if f AND flagXShortVector \<noteq> 0 then
                 (case idx d offset of
                    Inl p \<Rightarrow> Inl p
                  | Inr b \<Rightarrow>
                     Inr (if f AND flagPositiveXShortVector = 0
                          then x - ucast b else x + ucast b, offset + 1))
               else if f AND flagThisXIsSame = 0 then
                 (case u16 d offset of
                    Inl p \<Rightarrow> Inl p
                  | Inr w \<Rightarrow> Inr (x + w, offset + 2))
               else Inr (x, offset)) of
           Inl p \<Rightarrow> Inl p
         | Inr (x', offset') \<Rightarrow>
             decodeCoords_x d offset' x' (i + 1)
               (ps\<lparr>elts := (elts ps)[i := (elts ps ! i)\<lparr>X := scast x'\<rparr>]\<rparr>))
      else Inr (ps, offset))"
  by pat_completeness auto
termination
  by (relation "measure (\<lambda>(d, offset, x, i, ps). len ps - i)") (auto simp: len_def)

text \<open>The second loop: the Y co-ordinates, with the \<^verbatim>\<open>int16\<close> accumulator \<open>y\<close>.\<close>

function decodeCoords_y :: "byte slice \<Rightarrow> nat \<Rightarrow> int16 \<Rightarrow> nat \<Rightarrow> Point slice \<Rightarrow> panic + (Point slice \<times> nat)" where
  "decodeCoords_y d offset y i ps =
     (if i < len ps then
        (let f = Flags (elts ps ! i) in
         case (if f AND flagYShortVector \<noteq> 0 then
                 (case idx d offset of
                    Inl p \<Rightarrow> Inl p
                  | Inr b \<Rightarrow>
                     Inr (if f AND flagPositiveYShortVector = 0
                          then y - ucast b else y + ucast b, offset + 1))
               else if f AND flagThisYIsSame = 0 then
                 (case u16 d offset of
                    Inl p \<Rightarrow> Inl p
                  | Inr w \<Rightarrow> Inr (y + w, offset + 2))
               else Inr (y, offset)) of
           Inl p \<Rightarrow> Inl p
         | Inr (y', offset') \<Rightarrow>
             decodeCoords_y d offset' y' (i + 1)
               (ps\<lparr>elts := (elts ps)[i := (elts ps ! i)\<lparr>Y := scast y'\<rparr>]\<rparr>))
      else Inr (ps, offset))"
  by pat_completeness auto
termination
  by (relation "measure (\<lambda>(d, offset, y, i, ps). len ps - i)") (auto simp: len_def)

text \<open>\<^verbatim>\<open>decodeCoords\<close>: both accumulators are local variables that start at zero.\<close>

definition decodeCoords :: "byte slice \<Rightarrow> nat \<Rightarrow> nat \<Rightarrow> Point slice \<Rightarrow> panic + (Point slice \<times> nat)" where
  "decodeCoords d offset np0 ps =
     (case decodeCoords_x d offset 0 np0 ps of
        Inl p \<Rightarrow> Inl p
      | Inr (ps1, offset1) \<Rightarrow> decodeCoords_y d offset1 0 np0 ps1)"

section \<open>The font and the hinter\<close>

text \<open>
  Modelled from the spec: the \<^verbatim>\<open>Font\<close> type is declared outside \<^verbatim>\<open>glyph.go\<close>. What
  \<^verbatim>\<open>load\<close> reads of it: the \<^verbatim>\<open>glyf\<close> and \<^verbatim>\<open>loca\<close> tables, the width of the
  \<^verbatim>\<open>loca\<close> entries (16 or 32 bit), and the method \<^verbatim>\<open>f.scale\<close>, the externally
  supplied fixed-point scaling function, here the field \<open>Font_scale\<close>.
\<close>

datatype locaOffsetFormat = locaOffsetFormatShort | locaOffsetFormatLong

record Font =
  glyf :: "byte slice"
  loca :: "byte slice"
  locaOffsetFormat :: locaOffsetFormat
  Font_scale :: "int32 \<Rightarrow> int32"

text \<open>
  Modelled from the spec: the \<^verbatim>\<open>Hinter\<close> is the external hinting collaborator. It has a
  state of its own and two operations, \<^verbatim>\<open>init(g, f, scale)\<close> and \<^verbatim>\<open>run(program)\<close>; both
  may change the hinter and the glyph buffer it was given, may return an error, and,
  like any Go code, may panic. A nil \<^verbatim>\<open>*Hinter\<close> is \<open>None\<close>.
\<close>

record 'h Hinter =
  hstate :: 'h
  hinter_init :: "'h \<Rightarrow> GlyphBuf \<Rightarrow> Font \<Rightarrow> int32 \<Rightarrow> panic + ('h \<times> GlyphBuf \<times> error option)"
  hinter_run :: "'h \<Rightarrow> GlyphBuf \<Rightarrow> byte slice \<Rightarrow> panic + ('h \<times> GlyphBuf \<times> error option)"

definition hinit :: "'h Hinter \<Rightarrow> GlyphBuf \<Rightarrow> Font \<Rightarrow> int32 \<Rightarrow> panic + (GlyphBuf \<times> 'h Hinter \<times> error option)" where
  "hinit h g f scale =
     (case hinter_init h (hstate h) g f scale of
        Inl p \<Rightarrow> Inl p
      | Inr (s, g', err) \<Rightarrow> Inr (g', h\<lparr>hstate := s\<rparr>, err))"

definition hrun :: "'h Hinter \<Rightarrow> GlyphBuf \<Rightarrow> byte slice \<Rightarrow> panic + (GlyphBuf \<times> 'h Hinter \<times> error option)" where
  "hrun h g program =
     (case hinter_run h (hstate h) g program of
        Inl p \<Rightarrow> Inl p
      | Inr (s, g', err) \<Rightarrow> Inr (g', h\<lparr>hstate := s\<rparr>, err))"

section \<open>load: a simple glyph\<close>

text \<open>
  The body of \<^verbatim>\<open>load\<close> after the dispatch on the number of contours (lines 227 to
  285 of \<^verbatim>\<open>glyph.go\<close>) is given in the phases its comments name. The local variable \<^verbatim>\<open>glyf\<close>, the
  glyph's bytes, is \<open>gl\<close> here (\<open>glyf\<close> is the font's table).
\<close>

text \<open>\<^verbatim>\<open>g.End[i] = v\<close>, with Go's bounds check.\<close>

definition setEnd :: "int slice \<Rightarrow> nat \<Rightarrow> int \<Rightarrow> panic + int slice" where
  "setEnd es i v =
     (if i < length (elts es) then Inr (es\<lparr>elts := (elts es)[i := v]\<rparr>)
      else Inl IndexOutOfRange)"

text \<open>\<^verbatim>\<open>for i := ne0; i < ne; i++ { g.End[i] = 1 + np0 + int(u16(glyf, offset)); offset += 2 }\<close>\<close>

function decodeEnds :: "byte slice \<Rightarrow> nat \<Rightarrow> nat \<Rightarrow> nat \<Rightarrow> nat \<Rightarrow> int slice \<Rightarrow> panic + (int slice \<times> nat)" where
  "decodeEnds gl offset np0 i ne es =
     (if i < ne then
        (case u16 gl offset of
           Inl p \<Rightarrow> Inl p
         | Inr e \<Rightarrow>
            (case setEnd es i (1 + int np0 + uint e) of
               Inl p \<Rightarrow> Inl p
             | Inr es' \<Rightarrow> decodeEnds gl (offset + 2) np0 (i + 1) ne es'))
      else Inr (es, offset))"
  by pat_completeness auto
termination
  by (relation "measure (\<lambda>(gl, offset, np0, i, ne, es). ne - i)") auto

text \<open>
  Lines 227 to 255: the contour end indices, the hinting instructions and the points.
  \<open>n\<close> is the glyph's number of contours (not negative here). The result is the
  buffer, the instructions, and \<open>np0\<close> and \<open>np\<close>.
\<close>

definition decodeGlyph :: "byte slice \<Rightarrow> nat \<Rightarrow> nat \<Rightarrow> GlyphBuf \<Rightarrow> panic + (GlyphBuf \<times> byte slice \<times> nat \<times> nat)" where
  "decodeGlyph gl n offset g =
     (let ne0 = len (End g); np0 = len (Point g); ne = n + ne0 in
      case (if ne \<le> cap (End g) then reslice (End g) 0 ne
            else Inr (make_slice 0 ne (ne * 2))) of
        Inl p \<Rightarrow> Inl p
      | Inr es \<Rightarrow>
      case decodeEnds gl offset np0 ne0 ne es of
        Inl p \<Rightarrow> Inl p
      | Inr (es1, offset1) \<Rightarrow>
      case u16 gl offset1 of
        Inl p \<Rightarrow> Inl p
      | Inr instrLen \<Rightarrow>
      case reslice gl (offset1 + 2) (offset1 + 2 + unat instrLen) of
        Inl p \<Rightarrow> Inl p
      | Inr program \<Rightarrow>
      case (if ne = 0 then Inl IndexOutOfRange else idx es1 (ne - 1)) of
        Inl p \<Rightarrow> Inl p
      | Inr np \<Rightarrow>
      case (if np \<le> int (cap (Point g))
            then (if np < 0 then Inl SliceBoundsOutOfRange else reslice (Point g) 0 (nat np))
            else Inr (copy_slice (make_slice zeroPoint (nat np) (nat np * 2)) (Point g))) of
        Inl p \<Rightarrow> Inl p
      | Inr ps \<Rightarrow>
      case decodeFlags gl (offset1 + 2 + unat instrLen) np0 ps of
        Inl p \<Rightarrow> Inl p
      | Inr (ps1, offset2) \<Rightarrow>
      case decodeCoords gl offset2 np0 ps1 of
        Inl p \<Rightarrow> Inl p
      | Inr (ps2, offset3) \<Rightarrow>
          Inr (g\<lparr>End := es1, Point := ps2\<rparr>, program, np0, nat np))"

text \<open>\<^verbatim>\<open>for i := np0; i < np; i++ { g.InFontUnits[i].X += dx; g.InFontUnits[i].Y += dy }\<close>\<close>

function addDelta :: "int32 \<Rightarrow> int32 \<Rightarrow> nat \<Rightarrow> nat \<Rightarrow> Point list \<Rightarrow> panic + Point list" where
  "addDelta dx dy i np xs =
     (if i < np then
        (if i < length xs
         then addDelta dx dy (i + 1) np (xs[i := (xs ! i)\<lparr>X := X (xs ! i) + dx, Y := Y (xs ! i) + dy\<rparr>])
         else Inl IndexOutOfRange)
      else Inr xs)"
  by pat_completeness auto
termination
  by (relation "measure (\<lambda>(dx, dy, i, np, xs). np - i)") auto

text \<open>Lines 258 to 264: with a hinter, the points in font units.\<close>

definition snapshotInFontUnits :: "bool \<Rightarrow> int32 \<Rightarrow> int32 \<Rightarrow> nat \<Rightarrow> nat \<Rightarrow> GlyphBuf \<Rightarrow> panic + GlyphBuf" where
  "snapshotInFontUnits hinting dx dy np0 np g =
     (if hinting then
        (case reslice (Point g) np0 np of
           Inl p \<Rightarrow> Inl p
         | Inr sl \<Rightarrow>
            (case addDelta dx dy np0 np (InFontUnits g @ elts sl) of
               Inl p \<Rightarrow> Inl p
             | Inr xs \<Rightarrow> Inr (g\<lparr>InFontUnits := xs\<rparr>)))
      else Inr g)"

text \<open>\<^verbatim>\<open>g.Point[i].X = dx + f.scale(scale*g.Point[i].X)\<close> and the same for \<open>Y\<close>, for
  \<open>i\<close> from \<open>np0\<close> up to \<open>np\<close>; \<open>dx\<close> and \<open>dy\<close> are the rounded offsets.\<close>

function scaleRounded :: "Font \<Rightarrow> int32 \<Rightarrow> int32 \<Rightarrow> int32 \<Rightarrow> nat \<Rightarrow> nat \<Rightarrow> Point slice \<Rightarrow> panic + Point slice" where
  "scaleRounded f scale dx dy i np ps =
     (if i < np then
        (if i < length (elts ps)
         then scaleRounded f scale dx dy (i + 1) np
                (ps\<lparr>elts := (elts ps)[i := (elts ps ! i)
                   \<lparr>X := dx + Font_scale f (scale * X (elts ps ! i)),
                    Y := dy + Font_scale f (scale * Y (elts ps ! i))\<rparr>]\<rparr>)
         else Inl IndexOutOfRange)
      else Inr ps)"
  by pat_completeness auto
termination
  by (relation "measure (\<lambda>(f, scale, dx, dy, i, np, ps). np - i)") auto

text \<open>\<^verbatim>\<open>g.Point[i].X = f.scale(scale * (g.Point[i].X + dx))\<close> and the same for \<open>Y\<close>.\<close>

function scaleUnrounded :: "Font \<Rightarrow> int32 \<Rightarrow> int32 \<Rightarrow> int32 \<Rightarrow> nat \<Rightarrow> nat \<Rightarrow> Point slice \<Rightarrow> panic + Point slice" where
  "scaleUnrounded f scale dx dy i np ps =
     (if i < np then
        (if i < length (elts ps)
         then scaleUnrounded f scale dx dy (i + 1) np
                (ps\<lparr>elts := (elts ps)[i := (elts ps ! i)
                   \<lparr>X := Font_scale f (scale * (X (elts ps ! i) + dx)),
                    Y := Font_scale f (scale * (Y (elts ps ! i) + dy))\<rparr>]\<rparr>)
         else Inl IndexOutOfRange)
      else Inr ps)"
  by pat_completeness auto
termination
  by (relation "measure (\<lambda>(f, scale, dx, dy, i, np, ps). np - i)") auto

text \<open>Lines 265 to 277: the scaling step, on \<open>g.Point\<close>.\<close>

definition scalePoints :: "Font \<Rightarrow> int32 \<Rightarrow> int32 \<Rightarrow> int32 \<Rightarrow> bool \<Rightarrow> nat \<Rightarrow> nat \<Rightarrow> Point slice \<Rightarrow> panic + Point slice" where
  "scalePoints f scale dx dy roundDxDy np0 np ps =
     (if roundDxDy then
        scaleRounded f scale
          ((Font_scale f (scale * dx) + 32) AND NOT 63)
          ((Font_scale f (scale * dy) + 32) AND NOT 63) np0 np ps
      else scaleUnrounded f scale dx dy np0 np ps)"

text \<open>Lines 278 to 285: with a hinter, the scaled points are noted in \<open>Unhinted\<close> and
  the glyph's instructions are run; an error of the hinter is returned.\<close>

definition snapshotAndHint :: "'h Hinter option \<Rightarrow> byte slice \<Rightarrow> nat \<Rightarrow> nat \<Rightarrow> GlyphBuf \<Rightarrow> panic + (GlyphBuf \<times> 'h Hinter option \<times> error option)" where
  "snapshotAndHint h program np0 np g =
     (case h of
        None \<Rightarrow> Inr (g, None, None)
      | Some hh \<Rightarrow>
         (case reslice (Point g) np0 np of
            Inl p \<Rightarrow> Inl p
          | Inr sl \<Rightarrow>
             (case hrun hh (g\<lparr>Unhinted := Unhinted g @ elts sl\<rparr>) program of
                Inl p \<Rightarrow> Inl p
              | Inr (g', hh', err) \<Rightarrow> Inr (g', Some hh', err))))"

definition loadSimple :: "Font \<Rightarrow> int32 \<Rightarrow> 'h Hinter option \<Rightarrow> byte slice \<Rightarrow> nat \<Rightarrow> nat \<Rightarrow> int32 \<Rightarrow> int32 \<Rightarrow> bool \<Rightarrow> GlyphBuf \<Rightarrow> panic + (GlyphBuf \<times> 'h Hinter option \<times> error option)" where
  "loadSimple f scale h gl n offset dx dy roundDxDy g =
     (case decodeGlyph gl n offset g of
        Inl p \<Rightarrow> Inl p
      | Inr (g1, program, np0, np) \<Rightarrow>
      case snapshotInFontUnits (h \<noteq> None) dx dy np0 np g1 of
        Inl p \<Rightarrow> Inl p
      | Inr g2 \<Rightarrow>
      case scalePoints f scale dx dy roundDxDy np0 np (Point g2) of
        Inl p \<Rightarrow> Inl p
      | Inr ps \<Rightarrow> snapshotAndHint h program np0 np (g2\<lparr>Point := ps\<rparr>))"

section \<open>load and loadCompound\<close>

text \<open>Lines 201 to 208: the glyph's byte range \<open>g0\<close>, \<open>g1\<close> in \<^verbatim>\<open>f.glyf\<close>.\<close>

definition glyphRange :: "Font \<Rightarrow> uint16 \<Rightarrow> panic + (uint32 \<times> uint32)" where
  "glyphRange f i =
     (if locaOffsetFormat f = locaOffsetFormatShort then
        (case u16 (loca f) (2 * unat i) of Inl p \<Rightarrow> Inl p | Inr a \<Rightarrow>
         case u16 (loca f) (2 * unat i + 2) of Inl p \<Rightarrow> Inl p | Inr b \<Rightarrow>
           Inr (2 * ucast a, 2 * ucast b))
      else
        (case u32 (loca f) (4 * unat i) of Inl p \<Rightarrow> Inl p | Inr a \<Rightarrow>
         case u32 (loca f) (4 * unat i + 4) of Inl p \<Rightarrow> Inl p | Inr b \<Rightarrow>
           Inr (a, b)))"

text \<open>Lines 215 to 218: the bounding box of the glyph's header.\<close>

definition headerBounds :: "byte slice \<Rightarrow> panic + Bounds" where
  "headerBounds gl =
     (case u16 gl 2 of Inl p \<Rightarrow> Inl p | Inr x0 \<Rightarrow>
      case u16 gl 4 of Inl p \<Rightarrow> Inl p | Inr y0 \<Rightarrow>
      case u16 gl 6 of Inl p \<Rightarrow> Inl p | Inr x1 \<Rightarrow>
      case u16 gl 8 of Inl p \<Rightarrow> Inl p | Inr y1 \<Rightarrow>
        Inr \<lparr>XMin = scast x0, YMin = scast y0, XMax = scast x1, YMax = scast y1\<rparr>)"

subsection \<open>Flags of a compound glyph's components\<close>

definition flagArg1And2AreWords :: uint16 where "flagArg1And2AreWords = 1"
definition flagArgsAreXYValues :: uint16 where "flagArgsAreXYValues = 2"
definition flagRoundXYToGrid :: uint16 where "flagRoundXYToGrid = 4"
definition flagWeHaveAScale :: uint16 where "flagWeHaveAScale = 8"
definition flagMoreComponents :: uint16 where "flagMoreComponents = 32"
definition flagWeHaveAnXAndYScale :: uint16 where "flagWeHaveAnXAndYScale = 64"
definition flagWeHaveATwoByTwo :: uint16 where "flagWeHaveATwoByTwo = 128"
definition flagUseMyMetrics :: uint16 where "flagUseMyMetrics = 512"

text \<open>Lines 165 to 174: the component's offset arguments, two words or two signed
  bytes, added to \<open>dx\<close> and \<open>dy\<close>, and the offset of what follows.\<close>

definition componentArgs :: "byte slice \<Rightarrow> nat \<Rightarrow> uint16 \<Rightarrow> int32 \<Rightarrow> int32 \<Rightarrow> panic + (int32 \<times> int32 \<times> nat)" where
  "componentArgs gl offset flags dx dy =
     (if flags AND flagArg1And2AreWords \<noteq> 0 then
        (case u16 gl (offset + 4) of Inl p \<Rightarrow> Inl p | Inr a \<Rightarrow>
         case u16 gl (offset + 6) of Inl p \<Rightarrow> Inl p | Inr b \<Rightarrow>
           Inr (dx + scast a, dy + scast b, offset + 8))
      else
        (case idx gl (offset + 4) of Inl p \<Rightarrow> Inl p | Inr a \<Rightarrow>
         case idx gl (offset + 5) of Inl p \<Rightarrow> Inl p | Inr b \<Rightarrow>
           Inr (dx + scast a, dy + scast b, offset + 6)))"

text \<open>
  \<^verbatim>\<open>load\<close> and \<^verbatim>\<open>loadCompound\<close> call each other. A result is a panic, or the buffer and
  the hinter as the call leaves them with the \<^verbatim>\<open>error\<close> returned (\<open>None\<close> is nil).
  \<^verbatim>\<open>loadCompound\<close> is its loop, one component a round; the value of the call of
  \<^verbatim>\<open>g.load\<close> at line 182 is not used there.
\<close>

function load :: "Font \<Rightarrow> int32 \<Rightarrow> uint16 \<Rightarrow> 'h Hinter option \<Rightarrow> int32 \<Rightarrow> int32 \<Rightarrow> bool \<Rightarrow> nat \<Rightarrow> GlyphBuf \<Rightarrow> panic + (GlyphBuf \<times> 'h Hinter option \<times> error option)"
  and loadCompound :: "Font \<Rightarrow> int32 \<Rightarrow> 'h Hinter option \<Rightarrow> byte slice \<Rightarrow> nat \<Rightarrow> int32 \<Rightarrow> int32 \<Rightarrow> nat \<Rightarrow> GlyphBuf \<Rightarrow> panic + (GlyphBuf \<times> 'h Hinter option \<times> error option)" where
  "load f scale i h dx dy roundDxDy recursion g =
     (if recursion \<ge> 4 then
        Inr (g, h, Some (UnsupportedError ''excessive compound glyph recursion''))
      else
        case glyphRange f i of
          Inl p \<Rightarrow> Inl p
        | Inr (g0, g1) \<Rightarrow>
        if g0 = g1 then Inr (g, h, None)
        else
        case reslice (glyf f) (unat g0) (unat g1) of
          Inl p \<Rightarrow> Inl p
        | Inr gl \<Rightarrow>
        case u16 gl 0 of
          Inl p \<Rightarrow> Inl p
        | Inr n \<Rightarrow>
        case headerBounds gl of
          Inl p \<Rightarrow> Inl p
        | Inr b \<Rightarrow>
          if sint n = - 1 then loadCompound f scale h gl 10 dx dy recursion (g\<lparr>B := b\<rparr>)
          else if sint n < 0 then
            Inr (g\<lparr>B := b\<rparr>, h, Some (UnsupportedError ''negative number of contours''))
          else loadSimple f scale h gl (nat (sint n)) 10 dx dy roundDxDy (g\<lparr>B := b\<rparr>))"
| "loadCompound f scale h gl offset dx dy recursion g =
     (case u16 gl offset of
        Inl p \<Rightarrow> Inl p
      | Inr flags \<Rightarrow>
      case u16 gl (offset + 2) of
        Inl p \<Rightarrow> Inl p
      | Inr component \<Rightarrow>
      case componentArgs gl offset flags dx dy of
        Inl p \<Rightarrow> Inl p
      | Inr (dx1, dy1, offset1) \<Rightarrow>
        if flags AND flagArgsAreXYValues = 0 then
          Inr (g, h, Some (UnsupportedError ''compound glyph transform vector''))
        else if flags AND (flagWeHaveAScale OR flagWeHaveAnXAndYScale OR flagWeHaveATwoByTwo) \<noteq> 0 then
          Inr (g, h, Some (UnsupportedError ''compound glyph scale/transform''))
        else
          case load f scale component h dx1 dy1 (flags AND flagRoundXYToGrid \<noteq> 0) (recursion + 1) g of
            Inl p \<Rightarrow> Inl p
          | Inr (g1, h1, _) \<Rightarrow>
              let g2 = (if flags AND flagUseMyMetrics = 0 then g1\<lparr>B := B g\<rparr> else g1) in
              if flags AND flagMoreComponents = 0 then Inr (g2, h1, None)
              else loadCompound f scale h1 gl offset1 dx dy recursion g2)"
  by pat_completeness auto
termination
proof (relation "measures
    [case_sum (\<lambda>(f, scale, i, h, dx, dy, r, recursion, g). 2 * (4 - recursion))
              (\<lambda>(f, scale, h, gl, offset, dx, dy, recursion, g).
                  if recursion < 4 then 2 * (4 - recursion) - 1 else 1),
     case_sum (\<lambda>_. 0)
              (\<lambda>(f, scale, h, gl, offset, dx, dy, recursion, g). len gl - offset)]",
    goal_cases)
  case 1
  then show ?case by simp
next
  case 2
  then show ?case by auto
next
  case 3
  then show ?case by auto
next
  case (4 f scale h gl offset dx dy recursion g flags component x dx1 y dy1 offset1 z g1 w h1 e)
  then show ?case
    by (auto simp: componentArgs_def u16_def idx_def len_def split: if_splits sum.splits)
qed

section \<open>Load\<close>

text \<open>\<^verbatim>\<open>s[:0]\<close>: the slice is emptied, its backing array is kept.\<close>

definition truncate0 :: "'a slice \<Rightarrow> 'a slice" where
  "truncate0 s = \<lparr>elts = [], spare = elts s @ spare s\<rparr>"

text \<open>Lines 122 to 127: \<^verbatim>\<open>Load\<close> resets the buffer.\<close>

definition resetGlyphBuf :: "GlyphBuf \<Rightarrow> GlyphBuf" where
  "resetGlyphBuf g =
     \<lparr>B = zeroBounds, Point = truncate0 (Point g), Unhinted = [], InFontUnits = [],
      Twilight = [], End = truncate0 (End g)\<rparr>"

definition Load :: "Font \<Rightarrow> int32 \<Rightarrow> uint16 \<Rightarrow> 'h Hinter option \<Rightarrow> GlyphBuf \<Rightarrow> panic + (GlyphBuf \<times> 'h Hinter option \<times> error option)" where
  "Load f scale i h g =
     (case (case h of
              None \<Rightarrow> Inr (resetGlyphBuf g, None, None)
            | Some hh \<Rightarrow>
               (case hinit hh (resetGlyphBuf g) f scale of
                  Inl p \<Rightarrow> Inl p
                | Inr (g', hh', err) \<Rightarrow> Inr (g', Some hh', err))) of
        Inl p \<Rightarrow> Inl p
      | Inr (g1, h1, Some err) \<Rightarrow> Inr (g1, h1, Some err)
      | Inr (g1, h1, None) \<Rightarrow>
         (case load f scale i h1 0 0 False 0 g1 of
            Inl p \<Rightarrow> Inl p
          | Inr (g2, h2, Some err) \<Rightarrow> Inr (g2, h2, Some err)
          | Inr (g2, h2, None) \<Rightarrow>
              Inr (g2\<lparr>B := \<lparr>XMin = Font_scale f (scale * XMin (B g2)),
                            YMin = Font_scale f (scale * YMin (B g2)),
                            XMax = Font_scale f (scale * XMax (B g2)),
                            YMax = Font_scale f (scale * YMax (B g2))\<rparr>\<rparr>, h2, None)))"

declare decodeFlags_loop.simps [simp del] decodeCoords_x.simps [simp del]
  decodeCoords_y.simps [simp del] decodeEnds.simps [simp del] addDelta.simps [simp del]
  scaleRounded.simps [simp del] scaleUnrounded.simps [simp del]
  load.simps [simp del] loadCompound.simps [simp del]

section \<open>Definitions for stating the properties\<close>

text \<open>
  \<open>fillFlags c i n xs\<close> is \<open>xs\<close> with the flags of the \<open>n\<close> points from index \<open>i\<close> on
  set to \<open>c\<close>.
\<close>

definition fillFlags :: "uint32 \<Rightarrow> nat \<Rightarrow> nat \<Rightarrow> Point list \<Rightarrow> Point list" where
  "fillFlags c i n xs =
     take i xs @ map (\<lambda>p. p\<lparr>Flags := c\<rparr>) (take n (drop i xs)) @ drop (i + n) xs"

text \<open>
  The flag stream as the format describes it, on the bytes alone: a flag byte stands
  for one point; with its repeat bit set it is followed by a count byte and stands for
  that many additional points. \<open>None\<close> when the bytes end inside a run.
\<close>

fun expandFlags :: "byte list \<Rightarrow> uint32 list option" where
  "expandFlags [] = Some []"
| "expandFlags [b] = (if (ucast b :: uint32) AND flagRepeat \<noteq> 0 then None else Some [ucast b])"
| "expandFlags (b # k # bs) =
     (if (ucast b :: uint32) AND flagRepeat \<noteq> 0
      then map_option (\<lambda>fs. replicate (unat k + 1) (ucast b) @ fs) (expandFlags bs)
      else map_option (\<lambda>fs. ucast b # fs) (expandFlags (k # bs)))"

text \<open>
  The co-ordinate stream of one axis as the format describes it, on the flags and the
  bytes alone. \<open>short\<close> is the axis' short-vector bit and \<open>same\<close> the overloaded bit
  (the sign of a short vector, or "same as the previous co-ordinate"). The
  accumulator \<open>acc\<close> is an \<^verbatim>\<open>int16\<close>: a short vector is one byte, added when the sign
  bit is set and subtracted when it is clear; "same" takes no byte and leaves the
  accumulator as it is; otherwise a 16-bit big-endian delta of two bytes is added. Each
  point's co-ordinate is the accumulator, sign-extended to \<^verbatim>\<open>int32\<close>. The result is
  the co-ordinates and the number of bytes taken; \<open>None\<close> when the bytes run out.
\<close>

fun decodeAxis :: "uint32 \<Rightarrow> uint32 \<Rightarrow> int16 \<Rightarrow> uint32 list \<Rightarrow> byte list \<Rightarrow> (int32 list \<times> nat) option" where
  "decodeAxis short same acc [] bs = Some ([], 0)"
| "decodeAxis short same acc (f # fs) bs =
     (if f AND short \<noteq> 0 then
        (case bs of
           [] \<Rightarrow> None
         | b # bs' \<Rightarrow>
            (let acc' = (if f AND same = 0 then acc - ucast b else acc + ucast b) in
             map_option (\<lambda>(cs, n). (scast acc' # cs, n + 1)) (decodeAxis short same acc' fs bs')))
      else if f AND same \<noteq> 0 then
        map_option (\<lambda>(cs, n). (scast acc # cs, n)) (decodeAxis short same acc fs bs)
      else
        (case bs of
           b1 # b2 # bs' \<Rightarrow>
            (let acc' = acc + (push_bit 8 (ucast b1) OR ucast b2) in
             map_option (\<lambda>(cs, n). (scast acc' # cs, n + 2)) (decodeAxis short same acc' fs bs'))
         | _ \<Rightarrow> None))"

text \<open>\<open>mapRange i n f xs\<close> is \<open>xs\<close> with \<open>f\<close> applied to the elements from index \<open>i\<close> up
  to, not including, \<open>n\<close>.\<close>

definition mapRange :: "nat \<Rightarrow> nat \<Rightarrow> ('a \<Rightarrow> 'a) \<Rightarrow> 'a list \<Rightarrow> 'a list" where
  "mapRange i n f xs = take i xs @ map f (take (n - i) (drop i xs)) @ drop (i + (n - i)) xs"

text \<open>
  The two scaling policies as the specification states them: unrounded, a co-ordinate
  is \<open>scaleFn (scale * (raw + offset))\<close>; grid-rounded, the offset is first scaled
  and rounded, \<open>(scaleFn (scale * offset) + 32) AND NOT 63\<close>, and then added to
  \<open>scaleFn (scale * raw)\<close>; each axis on its own.
\<close>

definition scaleXY :: "Font \<Rightarrow> int32 \<Rightarrow> int32 \<Rightarrow> int32 \<Rightarrow> bool \<Rightarrow> Point \<Rightarrow> Point" where
  "scaleXY f scale dx dy roundDxDy p =
     (if roundDxDy then
        p\<lparr>X := ((Font_scale f (scale * dx) + 32) AND NOT 63) + Font_scale f (scale * X p),
          Y := ((Font_scale f (scale * dy) + 32) AND NOT 63) + Font_scale f (scale * Y p)\<rparr>
      else
        p\<lparr>X := Font_scale f (scale * (X p + dx)), Y := Font_scale f (scale * (Y p + dy))\<rparr>)"

text \<open>
  What \<^verbatim>\<open>loadCompound\<close> returns as far as the component records alone decide it: the
  loop of \<^verbatim>\<open>loadCompound\<close> without the call of \<^verbatim>\<open>g.load\<close>. It reads each record, returns
  the unsupported-feature error of the first record that is not a plain XY offset, and
  nil after the last record.
\<close>

function componentsVerdict :: "byte slice \<Rightarrow> nat \<Rightarrow> panic + error option" where
  "componentsVerdict gl offset =
     (case u16 gl offset of
        Inl p \<Rightarrow> Inl p
      | Inr flags \<Rightarrow>
      case u16 gl (offset + 2) of
        Inl p \<Rightarrow> Inl p
      | Inr component \<Rightarrow>
      case componentArgs gl offset flags 0 0 of
        Inl p \<Rightarrow> Inl p
      | Inr (dx1, dy1, offset1) \<Rightarrow>
        if flags AND flagArgsAreXYValues = 0 then
          Inr (Some (UnsupportedError ''compound glyph transform vector''))
        else if flags AND (flagWeHaveAScale OR flagWeHaveAnXAndYScale OR flagWeHaveATwoByTwo) \<noteq> 0 then
          Inr (Some (UnsupportedError ''compound glyph scale/transform''))
        else if flags AND flagMoreComponents = 0 then Inr None
        else componentsVerdict gl offset1)"
  by pat_completeness auto
termination
  by (relation "measure (\<lambda>(gl, offset). len gl - offset)")
     (auto simp: componentArgs_def u16_def idx_def len_def split: if_splits sum.splits)

declare componentsVerdict.simps [simp del]

text \<open>
  The contour end indices that a simple glyph stores, read from the bytes: \<open>n\<close> 16-bit
  values from \<open>offset\<close> on (\<^verbatim>\<open>load\<close> reads them at offset 10).
\<close>

fun endPts :: "byte slice \<Rightarrow> nat \<Rightarrow> nat \<Rightarrow> nat list" where
  "endPts gl offset 0 = []"
| "endPts gl offset (Suc n) =
     (case u16 gl offset of Inr e \<Rightarrow> unat e | Inl p \<Rightarrow> 0) # endPts gl (offset + 2) n"

text \<open>
  The property of the buffer that the specification asks of \<open>End\<close>: with \<open>End[-1]\<close>
  read as 0 the indices increase strictly, and the last one (0 when there is none)
  is the number of points.
\<close>

definition contoursOK :: "GlyphBuf \<Rightarrow> bool" where
  "contoursOK g \<longleftrightarrow>
     sorted_wrt (<) (0 # elts (End g)) \<and> last (0 # elts (End g)) = int (len (Point g))"




text \<open>
  \<open>keeps g g'\<close>: from \<open>g\<close> to \<open>g'\<close> contours were only added, and when they all fit
  into the capacity that \<open>End\<close> had in \<open>g\<close>, the capacity is unchanged and \<open>contoursOK\<close>
  is kept.
\<close>

definition keeps :: "GlyphBuf \<Rightarrow> GlyphBuf \<Rightarrow> bool" where
  "keeps g g' \<longleftrightarrow>
     len (End g) \<le> len (End g') \<and>
     (len (End g') \<le> cap (End g) \<longrightarrow>
        cap (End g') = cap (End g) \<and> (contoursOK g \<longrightarrow> contoursOK g'))"



text \<open>Slices without spare capacity, for concrete inputs.\<close>

definition bytes :: "byte list \<Rightarrow> byte slice" where
  "bytes xs = \<lparr>elts = xs, spare = []\<rparr>"

definition points :: "Point list \<Rightarrow> Point slice" where
  "points xs = \<lparr>elts = xs, spare = []\<rparr>"


text \<open>
  Concrete inputs: a buffer without capacity, a font whose scaling function is the
  identity, and the bytes of a simple glyph: one contour that ends at point 1, no
  instructions, two points with short positive X and Y deltas (3, 1) and (4, 2).
\<close>

definition emptyBuf :: GlyphBuf where
  "emptyBuf = \<lparr>B = zeroBounds, Point = points [], Unhinted = [], InFontUnits = [],
               Twilight = [], End = \<lparr>elts = [], spare = []\<rparr>\<rparr>"

definition glyphA :: "byte list" where
  "glyphA = [0, 1, 0, 0, 0, 0, 0, 3, 0, 4, 0, 1, 0, 0, 0x37, 0x37, 3, 1, 4, 2]"

definition fontId :: Font where
  "fontId = \<lparr>glyf = bytes [], loca = bytes [], locaOffsetFormat = locaOffsetFormatLong, Font_scale = (\<lambda>x. x)\<rparr>"

text \<open>
  Concrete fonts. \<open>selfref\<close> has one glyph, a compound glyph whose only component is
  the glyph itself. \<open>fontC\<close> has three glyphs: glyph 0 is a compound of glyph 1 (with
  "use my metrics" and "more components") and of glyph 2 (offset 5, 0; the last
  component); glyph 1 is \<open>glyphA\<close>; glyph 2 has the reserved contour count -2.
  \<open>bufA\<close> is the buffer after \<open>glyphA\<close> was loaded at scale 1. In \<open>fontZ\<close> the
  \<^verbatim>\<open>loca\<close> entry of glyph 0 has length zero.
\<close>

definition selfref :: Font where
  "selfref = \<lparr>glyf = bytes [0xFF, 0xFF, 0, 0, 0, 0, 0, 0, 0, 0, 0, 2, 0, 0, 0, 0],
               loca = bytes [0, 0, 0, 8], locaOffsetFormat = locaOffsetFormatShort,
               Font_scale = (\<lambda>x. x)\<rparr>"

definition glyphC :: "byte list" where
  "glyphC = [0xFF, 0xFF, 0, 0, 0, 0, 0, 9, 0, 9, 2, 0x22, 0, 1, 0, 0, 0, 2, 0, 2, 5, 0]"

definition glyphBad :: "byte list" where
  "glyphBad = [0xFF, 0xFE, 0, 1, 0, 1, 0, 1, 0, 1]"

definition fontC :: Font where
  "fontC = \<lparr>glyf = bytes (glyphC @ glyphA @ glyphBad),
             loca = bytes [0, 0, 0, 0, 0, 0, 0, 22, 0, 0, 0, 42, 0, 0, 0, 52],
             locaOffsetFormat = locaOffsetFormatLong, Font_scale = (\<lambda>x. x)\<rparr>"

definition bufA :: GlyphBuf where
  "bufA = \<lparr>B = \<lparr>XMin = 0, YMin = 0, XMax = 3, YMax = 4\<rparr>,
            Point = \<lparr>elts = [\<lparr>X = 3, Y = 4, Flags = 0x37\<rparr>, \<lparr>X = 4, Y = 6, Flags = 0x37\<rparr>],
                      spare = [zeroPoint, zeroPoint]\<rparr>,
            Unhinted = [], InFontUnits = [], Twilight = [],
            End = \<lparr>elts = [2], spare = [0]\<rparr>\<rparr>"

definition fontZ :: Font where
  "fontZ = \<lparr>glyf = bytes [], loca = bytes [0, 0, 0, 5, 0, 0, 0, 5],
             locaOffsetFormat = locaOffsetFormatLong, Font_scale = (\<lambda>x. x)\<rparr>"



text \<open>
  \<open>fontE\<close>: glyph 0 is a compound of three components, each of them glyph 1, which
  is \<open>glyphA\<close>.
\<close>

definition glyphE :: "byte list" where
  "glyphE = [0xFF, 0xFF, 0, 0, 0, 0, 0, 9, 0, 9,
             0, 0x22, 0, 1, 0, 0,  0, 0x22, 0, 1, 0, 0,  0, 2, 0, 1, 0, 0]"

definition fontE :: Font where
  "fontE = \<lparr>glyf = bytes (glyphE @ glyphA),
             loca = bytes [0, 0, 0, 0, 0, 0, 0, 28, 0, 0, 0, 48],
             locaOffsetFormat = locaOffsetFormatLong, Font_scale = (\<lambda>x. x)\<rparr>"

section \<open>Properties of decodeFlags\<close>

lemma length_fillFlags [simp]: "length (fillFlags c i n xs) = length xs"
  by (auto simp: fillFlags_def)

lemma nth_fillFlags:
  "j < length xs \<Longrightarrow>
   fillFlags c i n xs ! j = (if i \<le> j \<and> j < i + n then (xs ! j)\<lparr>Flags := c\<rparr> else xs ! j)"
  by (auto simp: fillFlags_def nth_append min_def)

lemma fillFlags_0 [simp]: "fillFlags c i 0 xs = xs"
  by (auto simp: list_eq_iff_nth_eq nth_fillFlags)

lemma fillFlags_Suc:
  "i < length xs \<Longrightarrow>
   fillFlags c (Suc i) n (xs[i := (xs ! i)\<lparr>Flags := c\<rparr>]) = fillFlags c i (Suc n) xs"
  by (auto simp: list_eq_iff_nth_eq nth_fillFlags nth_list_update)

lemma decodeFlags_repeat_closed:
  "i \<le> len ps \<Longrightarrow> decodeFlags_repeat c n i ps =
     (if i + n \<le> len ps then Inr (ps\<lparr>elts := fillFlags c i n (elts ps)\<rparr>, i + n)
      else Inl IndexOutOfRange)"
proof (induction n arbitrary: i ps)
  case 0
  then show ?case by simp
next
  case (Suc n)
  show ?case
  proof (cases "i < len ps")
    case True
    then show ?thesis
      by (simp add: setFlags_def len_def Suc.IH fillFlags_Suc)
  next
    case False
    with Suc.prems show ?thesis by (simp add: setFlags_def len_def)
  qed
qed

lemma decodeFlags_overrun:
  assumes "i < len ps" and "idx d offset = Inr b"
    and "(ucast b :: uint32) AND flagRepeat \<noteq> 0"
    and "idx d (offset + 1) = Inr k"
    and "len ps < i + 1 + unat k"
  shows "decodeFlags d offset i ps = Inl IndexOutOfRange"
  using assms
  by (subst decodeFlags_def, subst decodeFlags_loop.simps)
     (simp add: setFlags_def len_def decodeFlags_repeat_closed)


lemma expandFlags_single:
  "(ucast b :: uint32) AND flagRepeat = 0 \<Longrightarrow>
   expandFlags (b # bs) = map_option (\<lambda>fs. ucast b # fs) (expandFlags bs)"
  by (cases bs) auto

lemma map_drop_run:
  assumes "i + n \<le> length xs" and "\<forall>j. i \<le> j \<and> j < i + n \<longrightarrow> f (xs ! j) = c"
  shows "map f (drop i xs) = replicate n c @ map f (drop (i + n) xs)"
  using assms by (auto simp: list_eq_iff_nth_eq nth_append)

lemma map_X_fillFlags [simp]: "map X (fillFlags c i n xs) = map X xs"
  by (auto simp: list_eq_iff_nth_eq nth_fillFlags)

lemma map_Y_fillFlags [simp]: "map Y (fillFlags c i n xs) = map Y xs"
  by (auto simp: list_eq_iff_nth_eq nth_fillFlags)

lemma idx_drop: "idx d offset = Inr b \<Longrightarrow> drop offset (elts d) = b # drop (Suc offset) (elts d)"
  by (auto simp: idx_def Cons_nth_drop_Suc split: if_splits)

lemma decodeFlags_loop_result:
  "decodeFlags_loop d offset i ps = Inr (ps', offset') \<Longrightarrow>
     len ps' = len ps \<and> spare ps' = spare ps \<and> offset \<le> offset' \<and>
     (\<forall>j<i. elts ps' ! j = elts ps ! j) \<and>
     map X (elts ps') = map X (elts ps) \<and> map Y (elts ps') = map Y (elts ps) \<and>
     expandFlags (take (offset' - offset) (drop offset (elts d))) = Some (map Flags (drop i (elts ps')))"
proof (induction d offset i ps arbitrary: ps' offset' rule: decodeFlags_loop.induct)
  case (1 d offset i ps)
  show ?case
  proof (cases "i < len ps")
    case False
    with "1.prems" show ?thesis
      by (simp add: decodeFlags_loop.simps len_def)
  next
    case True
    with "1.prems" obtain b where b: "idx d offset = Inr b"
      by (subst (asm) decodeFlags_loop.simps) (auto split: sum.splits)
    let ?c = "ucast b :: uint32"
    let ?ps1 = "ps\<lparr>elts := (elts ps)[i := (elts ps ! i)\<lparr>Flags := ?c\<rparr>]\<rparr>"
    from True have s1: "setFlags ps i ?c = Inr ?ps1"
      by (simp add: setFlags_def len_def)
    note dr = idx_drop [OF b]
    show ?thesis
    proof (cases "?c AND flagRepeat = 0")
      case single: True
      from "1.prems" True b s1 single
      have r: "decodeFlags_loop d (offset + 1) (i + 1) ?ps1 = Inr (ps', offset')"
        by (subst (asm) decodeFlags_loop.simps) simp
      from single have ne: "\<not> ?c AND flagRepeat \<noteq> 0" by simp
      note IH = "1.IH"(2) [OF True b s1 ne r]
      from IH have le: "offset + 1 \<le> offset'" and l: "len ps' = len ps"
        by (simp_all add: len_def)
      from IH have fr: "\<forall>j<i + 1. elts ps' ! j = elts ?ps1 ! j" by blast
      from fr True have fi: "Flags (elts ps' ! i) = ?c"
        by (simp add: len_def)
      from True l have dri: "drop i (elts ps') = elts ps' ! i # drop (Suc i) (elts ps')"
        by (simp add: len_def Cons_nth_drop_Suc)
      from le have tk: "take (offset' - offset) (b # drop (Suc offset) (elts d))
          = b # take (offset' - (offset + 1)) (drop (offset + 1) (elts d))"
        by (auto simp: take_Cons')
      have ex: "expandFlags (take (offset' - offset) (drop offset (elts d)))
          = Some (map Flags (drop i (elts ps')))"
        using IH single True by (simp add: dr tk expandFlags_single dri fi len_def)
      from fr True have "\<forall>j<i. elts ps' ! j = elts ps ! j"
        by (auto simp: len_def)
      moreover from IH True have "map X (elts ps') = map X (elts ps)"
        by (simp add: map_update len_def list_update_same_conv)
      moreover from IH True have "map Y (elts ps') = map Y (elts ps)"
        by (simp add: map_update len_def list_update_same_conv)
      ultimately show ?thesis using IH le ex by (simp add: len_def)
    next
      case rep: False
      with "1.prems" True b s1 obtain k where k: "idx d (offset + 1) = Inr k"
        by (subst (asm) decodeFlags_loop.simps) (auto split: sum.splits)
      let ?n = "unat k + 1"
      let ?ps2 = "ps\<lparr>elts := fillFlags ?c i ?n (elts ps)\<rparr>"
      from True have i1: "i + 1 \<le> len ?ps1" by (simp add: len_def)
      have rc: "decodeFlags_repeat ?c (unat k) (i + 1) ?ps1 =
          (if i + ?n \<le> len ps then Inr (?ps2, i + ?n) else Inl IndexOutOfRange)"
        using True decodeFlags_repeat_closed [OF i1, of ?c "unat k"]
        by (simp add: len_def fillFlags_Suc)
      from "1.prems" True b s1 rep k rc have fit: "i + ?n \<le> len ps"
        by (subst (asm) decodeFlags_loop.simps) (auto split: if_splits)
      with rc have rc': "decodeFlags_repeat ?c (unat k) (i + 1) ?ps1 = Inr (?ps2, i + ?n)"
        by simp
      from "1.prems" True b s1 rep k rc'
      have r: "decodeFlags_loop d (offset + 2) (i + ?n) ?ps2 = Inr (ps', offset')"
        by (subst (asm) decodeFlags_loop.simps) simp
      note IH = "1.IH"(1) [OF True b s1 rep k rc' refl r]
      from IH have le: "offset + 2 \<le> offset'" and l: "len ps' = len ps"
        by (simp_all add: len_def)
      from IH have fr: "\<forall>j<i + ?n. elts ps' ! j = elts ?ps2 ! j" by blast
      from k have dr2: "drop (Suc offset) (elts d) = k # drop (Suc (Suc offset)) (elts d)"
        using idx_drop [OF k] by simp
      from le have tk: "take (offset' - offset) (b # k # drop (Suc (Suc offset)) (elts d))
          = b # k # take (offset' - Suc (Suc offset)) (drop (Suc (Suc offset)) (elts d))"
        by (auto simp: take_Cons')
      have fl: "\<forall>j. i \<le> j \<and> j < i + ?n \<longrightarrow> Flags (elts ps' ! j) = ?c"
        using fr fit by (auto simp: nth_fillFlags len_def)
      from fit l have "i + ?n \<le> length (elts ps')" by (simp add: len_def)
      from map_drop_run [OF this fl]
      have md: "map Flags (drop i (elts ps')) = replicate ?n ?c @ map Flags (drop (i + ?n) (elts ps'))" .
      have ex: "expandFlags (take (offset' - offset) (drop offset (elts d)))
          = Some (map Flags (drop i (elts ps')))"
        using IH rep by (simp add: dr dr2 tk md)
      from fr fit have "\<forall>j<i. elts ps' ! j = elts ps ! j"
        by (auto simp: nth_fillFlags len_def)
      with IH le ex show ?thesis by (simp add: len_def)
    qed
  qed
qed


lemma decodeFlags_repeat_panic: "decodeFlags_repeat c n i ps = Inl p \<Longrightarrow> p = IndexOutOfRange"
  by (induction n arbitrary: i ps) (auto simp: setFlags_def split: sum.splits if_splits)

lemma decodeFlags_loop_panic: "decodeFlags_loop d offset i ps = Inl p \<Longrightarrow> p = IndexOutOfRange"
proof (induction d offset i ps rule: decodeFlags_loop.induct)
  case (1 d offset i ps)
  from "1.prems" show ?case
    by (subst (asm) decodeFlags_loop.simps)
       (auto simp: idx_def setFlags_def split: if_splits sum.splits prod.splits
             dest: decodeFlags_repeat_panic "1.IH")
qed

lemma decodeFlags_repeat_numeral:
  "decodeFlags_repeat c (numeral n) i ps =
     (case setFlags ps i c of
        Inl p \<Rightarrow> Inl p
      | Inr ps' \<Rightarrow> decodeFlags_repeat c (pred_numeral n) (i + 1) ps')"
  by (simp add: numeral_eq_Suc)


lemmas eval_simps = decodeFlags_def decodeFlags_loop.simps len_def idx_def setFlags_def
  flagRepeat_def bytes_def points_def zeroPoint_def decodeFlags_repeat_numeral



text \<open>
  Claim C2, as the code has it. \<^verbatim>\<open>decodeFlags\<close> returns no error: it returns an offset or
  it panics. When it returns, the points keep their number, the points before \<open>np0\<close>
  and the backing array past the length are as before, only flags were written, and
  the flags of the points from \<open>np0\<close> on are exactly what the bytes it took stand
  for, every run in full (nothing is cut short). When it does not return, the
  panic is Go's index check. A repeat count that runs past the last point ends in that
  panic.
\<close>

theorem decodeFlags_bounds_checked:
  "(\<forall>ps' offset'. decodeFlags d offset np0 ps = Inr (ps', offset') \<longrightarrow>
      len ps' = len ps \<and> spare ps' = spare ps \<and> offset \<le> offset' \<and>
      (\<forall>j<np0. elts ps' ! j = elts ps ! j) \<and>
      map X (elts ps') = map X (elts ps) \<and> map Y (elts ps') = map Y (elts ps) \<and>
      expandFlags (take (offset' - offset) (drop offset (elts d)))
        = Some (map Flags (drop np0 (elts ps')))) \<and>
   (\<forall>p. decodeFlags d offset np0 ps = Inl p \<longrightarrow> p = IndexOutOfRange) \<and>
   (\<forall>b k. np0 < len ps \<and> idx d offset = Inr b \<and> (ucast b :: uint32) AND flagRepeat \<noteq> 0 \<and>
      idx d (offset + 1) = Inr k \<and> len ps < np0 + 1 + unat k \<longrightarrow>
      decodeFlags d offset np0 ps = Inl IndexOutOfRange)"
proof (intro conjI allI impI)
  fix ps' offset'
  assume "decodeFlags d offset np0 ps = Inr (ps', offset')"
  then have r: "decodeFlags_loop d offset np0 ps = Inr (ps', offset')"
    by (simp add: decodeFlags_def)
  note R = decodeFlags_loop_result [OF r]
  from R show "len ps' = len ps" by blast
  from R show "spare ps' = spare ps" by blast
  from R show "offset \<le> offset'" by blast
  from R show "map X (elts ps') = map X (elts ps)" by blast
  from R show "map Y (elts ps') = map Y (elts ps)" by blast
  from R show "expandFlags (take (offset' - offset) (drop offset (elts d)))
        = Some (map Flags (drop np0 (elts ps')))" by blast
  fix j assume "j < np0"
  with R show "elts ps' ! j = elts ps ! j" by blast
next
  fix p assume "decodeFlags d offset np0 ps = Inl p"
  then show "p = IndexOutOfRange"
    by (simp add: decodeFlags_def decodeFlags_loop_panic)
next
  fix b k
  assume "np0 < len ps \<and> idx d offset = Inr b \<and> (ucast b :: uint32) AND flagRepeat \<noteq> 0 \<and>
      idx d (offset + 1) = Inr k \<and> len ps < np0 + 1 + unat k"
  then show "decodeFlags d offset np0 ps = Inl IndexOutOfRange"
    by (intro decodeFlags_overrun) auto
qed

theorem decodeFlags_bounds_checked_witness:
  "decodeFlags (bytes [1, 9, 1, 7]) 0 1 (points [zeroPoint, zeroPoint, zeroPoint, zeroPoint])
     = Inr (points [zeroPoint, zeroPoint\<lparr>Flags := 1\<rparr>, zeroPoint\<lparr>Flags := 9\<rparr>, zeroPoint\<lparr>Flags := 9\<rparr>], 3) \<and>
   expandFlags [1, 9, 1] = Some [1, 9, 9] \<and>
   decodeFlags (bytes [9, 5]) 0 0 (points [zeroPoint, zeroPoint]) = Inl IndexOutOfRange"
  using decodeFlags_bounds_checked [of "bytes [1, 9, 1, 7]" 0 1 "points [zeroPoint, zeroPoint, zeroPoint, zeroPoint]"]
    decodeFlags_bounds_checked [of "bytes [9, 5]" 0 0 "points [zeroPoint, zeroPoint]"]
  by (simp add: eval_simps)

text \<open>
  Claim C2 as stated fails: on the flag byte 9 (on curve, repeat) with count 5 and two
  points to fill, \<^verbatim>\<open>decodeFlags\<close> does not return a malformed-input error, it panics.
\<close>

theorem decodeFlags_overrun_panics:
  "decodeFlags (bytes [9, 5]) 0 0 (points [zeroPoint, zeroPoint]) = Inl IndexOutOfRange"
  by (simp add: eval_simps)


section \<open>Properties of decodeCoords\<close>

lemma decodeAxis_length:
  "decodeAxis short same acc fs bs = Some (cs, n) \<Longrightarrow> length cs = length fs"
  by (induction fs arbitrary: acc bs cs n)
     (auto simp: Let_def split: if_splits list.splits)

lemma u16_drop:
  "u16 d offset =
     (case drop offset (elts d) of
        b1 # b2 # bs \<Rightarrow> Inr (push_bit 8 (ucast b1) OR ucast b2)
      | _ \<Rightarrow> Inl IndexOutOfRange)"
proof (cases "offset + 1 < length (elts d)")
  case True
  then have "drop offset (elts d) = elts d ! offset # elts d ! (offset + 1) # drop (offset + 2) (elts d)"
    by (simp add: Cons_nth_drop_Suc)
  with True show ?thesis by (simp add: u16_def idx_def)
next
  case False
  then show ?thesis
    by (cases "drop offset (elts d)"; cases "tl (drop offset (elts d))")
       (auto simp: u16_def idx_def not_less dest!: arg_cong [where f = length])
qed

lemma idx_drop_case:
  "idx d offset = (case drop offset (elts d) of [] \<Rightarrow> Inl IndexOutOfRange | b # bs \<Rightarrow> Inr b)"
  by (cases "offset < length (elts d)") (auto simp: idx_def Cons_nth_drop_Suc [symmetric])


lemma drop_Suc_tl: "drop (Suc n) xs = tl (drop n xs)"
  by (simp add: drop_Suc tl_drop)

lemma drop_Cons_eq: "drop n xs = b # bs \<Longrightarrow> drop (Suc n) xs = bs"
  by (simp add: drop_Suc_tl)

lemma drop_Cons2_eq: "drop n xs = b1 # b2 # bs \<Longrightarrow> drop (n + 2) xs = bs"
  using drop_Cons_eq [of n xs b1 "b2 # bs"] drop_Cons_eq [of "Suc n" xs b2 bs] by simp

lemma setX_step:
  assumes i: "i < length xs"
  shows "take (Suc i) (xs[i := p]) @ map (\<lambda>(p, c). p\<lparr>X := c\<rparr>) (zip (drop (Suc i) (xs[i := p])) cs)
       = take i xs @ p # map (\<lambda>(p, c). p\<lparr>X := c\<rparr>) (zip (drop (Suc i) xs) cs)"
  using i by (simp add: take_Suc_conv_app_nth)

lemma decodeCoords_x_spec:
  "decodeCoords_x d offset x i ps =
     (case decodeAxis flagXShortVector flagPositiveXShortVector x
             (map Flags (drop i (elts ps))) (drop offset (elts d)) of
        None \<Rightarrow> Inl IndexOutOfRange
      | Some (cs, n) \<Rightarrow>
          Inr (ps\<lparr>elts := take i (elts ps) @ map (\<lambda>(p, c). p\<lparr>X := c\<rparr>) (zip (drop i (elts ps)) cs)\<rparr>,
               offset + n))"
proof (induction d offset x i ps rule: decodeCoords_x.induct)
  case (1 d offset x i ps)
  show ?case
  proof (cases "i < len ps")
    case False
    then show ?thesis
      by (subst decodeCoords_x.simps) (simp add: len_def)
  next
    case True
    let ?p = "elts ps ! i"
    let ?f = "Flags ?p"
    from True have dri: "drop i (elts ps) = ?p # drop (Suc i) (elts ps)"
      by (simp add: len_def Cons_nth_drop_Suc)
    have upd: "map Flags (drop (Suc i) ((elts ps)[i := ?p\<lparr>X := c\<rparr>])) = map Flags (drop (Suc i) (elts ps))" for c
      by simp
    have step: "decodeCoords_x d o' x' (i + 1) (ps\<lparr>elts := (elts ps)[i := ?p\<lparr>X := scast x'\<rparr>]\<rparr>) =
        (case decodeAxis flagXShortVector flagPositiveXShortVector x'
             (map Flags (drop (Suc i) (elts ps))) (drop o' (elts d)) of
          None \<Rightarrow> Inl IndexOutOfRange
        | Some (cs, n) \<Rightarrow>
            Inr (ps\<lparr>elts := take i (elts ps) @ ?p\<lparr>X := scast x'\<rparr> #
                   map (\<lambda>(p, c). p\<lparr>X := c\<rparr>) (zip (drop (Suc i) (elts ps)) cs)\<rparr>, o' + n))"
      if "decodeCoords_x d o' x' (i + 1) (ps\<lparr>elts := (elts ps)[i := ?p\<lparr>X := scast x'\<rparr>]\<rparr>) =
        (case decodeAxis flagXShortVector flagPositiveXShortVector x'
             (map Flags (drop (i + 1) (elts (ps\<lparr>elts := (elts ps)[i := ?p\<lparr>X := scast x'\<rparr>]\<rparr>))))
             (drop o' (elts d)) of
          None \<Rightarrow> Inl IndexOutOfRange
        | Some (cs, n) \<Rightarrow>
            Inr (ps\<lparr>elts := (elts ps)[i := ?p\<lparr>X := scast x'\<rparr>]\<rparr>
                   \<lparr>elts := take (i + 1) (elts (ps\<lparr>elts := (elts ps)[i := ?p\<lparr>X := scast x'\<rparr>]\<rparr>)) @
                      map (\<lambda>(p, c). p\<lparr>X := c\<rparr>)
                        (zip (drop (i + 1) (elts (ps\<lparr>elts := (elts ps)[i := ?p\<lparr>X := scast x'\<rparr>]\<rparr>))) cs)\<rparr>,
                 o' + n))" for o' x'
      using that True by (simp add: len_def take_Suc_conv_app_nth split: option.splits)
    show ?thesis
    proof (cases "?f AND flagXShortVector \<noteq> 0")
      case short: True
      show ?thesis
      proof (cases "drop offset (elts d)")
        case Nil
        with True short show ?thesis
          by (subst decodeCoords_x.simps) (simp add: idx_drop_case dri)
      next
        case (Cons b bs)
        let ?x' = "if ?f AND flagPositiveXShortVector = 0 then x - ucast b else x + ucast b"
        have e: "(if ?f AND flagXShortVector \<noteq> 0 then
                 (case idx d offset of
                    Inl p \<Rightarrow> Inl p
                  | Inr b \<Rightarrow>
                     Inr (if ?f AND flagPositiveXShortVector = 0
                          then x - ucast b else x + ucast b, offset + 1))
               else if ?f AND flagThisXIsSame = 0 then
                 (case u16 d offset of
                    Inl p \<Rightarrow> Inl p
                  | Inr w \<Rightarrow> Inr (x + w, offset + 2))
               else Inr (x, offset)) = Inr (?x', offset + 1)"
          using short Cons by (simp add: idx_drop_case)
        note IH = "1.IH" [OF True refl e refl]
        from Cons have bs: "drop (Suc offset) (elts d) = bs" by (rule drop_Cons_eq)
        show ?thesis
          using True short Cons step [OF IH]
          by (subst decodeCoords_x.simps)
             (simp add: idx_drop_case dri bs Let_def split: option.splits)
      qed
    next
      case notshort: False
      show ?thesis
      proof (cases "?f AND flagThisXIsSame = 0")
        case same: False
        have e: "(if ?f AND flagXShortVector \<noteq> 0 then
                 (case idx d offset of
                    Inl p \<Rightarrow> Inl p
                  | Inr b \<Rightarrow>
                     Inr (if ?f AND flagPositiveXShortVector = 0
                          then x - ucast b else x + ucast b, offset + 1))
               else if ?f AND flagThisXIsSame = 0 then
                 (case u16 d offset of
                    Inl p \<Rightarrow> Inl p
                  | Inr w \<Rightarrow> Inr (x + w, offset + 2))
               else Inr (x, offset)) = Inr (x, offset)"
          using notshort same by simp
        note IH = "1.IH" [OF True refl e refl]
        show ?thesis
          using True notshort same step [OF IH]
          by (subst decodeCoords_x.simps)
             (simp add: dri flagThisXIsSame_def split: option.splits)
      next
        case full: True
        show ?thesis
        proof (cases "u16 d offset")
          case (Inl p)
          with True notshort full show ?thesis
            by (subst decodeCoords_x.simps)
               (auto simp: u16_drop dri flagThisXIsSame_def split: list.splits)
        next
          case (Inr w)
          then obtain b1 b2 bs where bs: "drop offset (elts d) = b1 # b2 # bs"
            and w: "w = push_bit 8 (ucast b1) OR ucast b2"
            by (auto simp: u16_drop split: list.splits)
          have e: "(if ?f AND flagXShortVector \<noteq> 0 then
                 (case idx d offset of
                    Inl p \<Rightarrow> Inl p
                  | Inr b \<Rightarrow>
                     Inr (if ?f AND flagPositiveXShortVector = 0
                          then x - ucast b else x + ucast b, offset + 1))
               else if ?f AND flagThisXIsSame = 0 then
                 (case u16 d offset of
                    Inl p \<Rightarrow> Inl p
                  | Inr w \<Rightarrow> Inr (x + w, offset + 2))
               else Inr (x, offset)) = Inr (x + w, offset + 2)"
            using notshort full Inr by simp
          note IH = "1.IH" [OF True refl e refl]
          from bs have bs': "drop (Suc (Suc offset)) (elts d) = bs"
            using drop_Cons2_eq [OF bs] by simp
          show ?thesis
            using True notshort full Inr step [OF IH]
            by (subst decodeCoords_x.simps)
               (simp add: dri bs bs' w flagThisXIsSame_def Let_def split: option.splits)
        qed
      qed
    qed
  qed
qed

lemma decodeCoords_y_spec:
  "decodeCoords_y d offset y i ps =
     (case decodeAxis flagYShortVector flagPositiveYShortVector y
             (map Flags (drop i (elts ps))) (drop offset (elts d)) of
        None \<Rightarrow> Inl IndexOutOfRange
      | Some (cs, n) \<Rightarrow>
          Inr (ps\<lparr>elts := take i (elts ps) @ map (\<lambda>(p, c). p\<lparr>Y := c\<rparr>) (zip (drop i (elts ps)) cs)\<rparr>,
               offset + n))"
proof (induction d offset y i ps rule: decodeCoords_y.induct)
  case (1 d offset y i ps)
  show ?case
  proof (cases "i < len ps")
    case False
    then show ?thesis
      by (subst decodeCoords_y.simps) (simp add: len_def)
  next
    case True
    let ?p = "elts ps ! i"
    let ?f = "Flags ?p"
    from True have dri: "drop i (elts ps) = ?p # drop (Suc i) (elts ps)"
      by (simp add: len_def Cons_nth_drop_Suc)
    have upd: "map Flags (drop (Suc i) ((elts ps)[i := ?p\<lparr>Y := c\<rparr>])) = map Flags (drop (Suc i) (elts ps))" for c
      by simp
    have step: "decodeCoords_y d o' x' (i + 1) (ps\<lparr>elts := (elts ps)[i := ?p\<lparr>Y := scast x'\<rparr>]\<rparr>) =
        (case decodeAxis flagYShortVector flagPositiveYShortVector x'
             (map Flags (drop (Suc i) (elts ps))) (drop o' (elts d)) of
          None \<Rightarrow> Inl IndexOutOfRange
        | Some (cs, n) \<Rightarrow>
            Inr (ps\<lparr>elts := take i (elts ps) @ ?p\<lparr>Y := scast x'\<rparr> #
                   map (\<lambda>(p, c). p\<lparr>Y := c\<rparr>) (zip (drop (Suc i) (elts ps)) cs)\<rparr>, o' + n))"
      if "decodeCoords_y d o' x' (i + 1) (ps\<lparr>elts := (elts ps)[i := ?p\<lparr>Y := scast x'\<rparr>]\<rparr>) =
        (case decodeAxis flagYShortVector flagPositiveYShortVector x'
             (map Flags (drop (i + 1) (elts (ps\<lparr>elts := (elts ps)[i := ?p\<lparr>Y := scast x'\<rparr>]\<rparr>))))
             (drop o' (elts d)) of
          None \<Rightarrow> Inl IndexOutOfRange
        | Some (cs, n) \<Rightarrow>
            Inr (ps\<lparr>elts := (elts ps)[i := ?p\<lparr>Y := scast x'\<rparr>]\<rparr>
                   \<lparr>elts := take (i + 1) (elts (ps\<lparr>elts := (elts ps)[i := ?p\<lparr>Y := scast x'\<rparr>]\<rparr>)) @
                      map (\<lambda>(p, c). p\<lparr>Y := c\<rparr>)
                        (zip (drop (i + 1) (elts (ps\<lparr>elts := (elts ps)[i := ?p\<lparr>Y := scast x'\<rparr>]\<rparr>))) cs)\<rparr>,
                 o' + n))" for o' x'
      using that True by (simp add: len_def take_Suc_conv_app_nth split: option.splits)
    show ?thesis
    proof (cases "?f AND flagYShortVector \<noteq> 0")
      case short: True
      show ?thesis
      proof (cases "drop offset (elts d)")
        case Nil
        with True short show ?thesis
          by (subst decodeCoords_y.simps) (simp add: idx_drop_case dri)
      next
        case (Cons b bs)
        let ?x' = "if ?f AND flagPositiveYShortVector = 0 then y - ucast b else y + ucast b"
        have e: "(if ?f AND flagYShortVector \<noteq> 0 then
                 (case idx d offset of
                    Inl p \<Rightarrow> Inl p
                  | Inr b \<Rightarrow>
                     Inr (if ?f AND flagPositiveYShortVector = 0
                          then y - ucast b else y + ucast b, offset + 1))
               else if ?f AND flagThisYIsSame = 0 then
                 (case u16 d offset of
                    Inl p \<Rightarrow> Inl p
                  | Inr w \<Rightarrow> Inr (y + w, offset + 2))
               else Inr (y, offset)) = Inr (?x', offset + 1)"
          using short Cons by (simp add: idx_drop_case)
        note IH = "1.IH" [OF True refl e refl]
        from Cons have bs: "drop (Suc offset) (elts d) = bs" by (rule drop_Cons_eq)
        show ?thesis
          using True short Cons step [OF IH]
          by (subst decodeCoords_y.simps)
             (simp add: idx_drop_case dri bs Let_def split: option.splits)
      qed
    next
      case notshort: False
      show ?thesis
      proof (cases "?f AND flagThisYIsSame = 0")
        case same: False
        have e: "(if ?f AND flagYShortVector \<noteq> 0 then
                 (case idx d offset of
                    Inl p \<Rightarrow> Inl p
                  | Inr b \<Rightarrow>
                     Inr (if ?f AND flagPositiveYShortVector = 0
                          then y - ucast b else y + ucast b, offset + 1))
               else if ?f AND flagThisYIsSame = 0 then
                 (case u16 d offset of
                    Inl p \<Rightarrow> Inl p
                  | Inr w \<Rightarrow> Inr (y + w, offset + 2))
               else Inr (y, offset)) = Inr (y, offset)"
          using notshort same by simp
        note IH = "1.IH" [OF True refl e refl]
        show ?thesis
          using True notshort same step [OF IH]
          by (subst decodeCoords_y.simps)
             (simp add: dri flagThisYIsSame_def split: option.splits)
      next
        case full: True
        show ?thesis
        proof (cases "u16 d offset")
          case (Inl p)
          with True notshort full show ?thesis
            by (subst decodeCoords_y.simps)
               (auto simp: u16_drop dri flagThisYIsSame_def split: list.splits)
        next
          case (Inr w)
          then obtain b1 b2 bs where bs: "drop offset (elts d) = b1 # b2 # bs"
            and w: "w = push_bit 8 (ucast b1) OR ucast b2"
            by (auto simp: u16_drop split: list.splits)
          have e: "(if ?f AND flagYShortVector \<noteq> 0 then
                 (case idx d offset of
                    Inl p \<Rightarrow> Inl p
                  | Inr b \<Rightarrow>
                     Inr (if ?f AND flagPositiveYShortVector = 0
                          then y - ucast b else y + ucast b, offset + 1))
               else if ?f AND flagThisYIsSame = 0 then
                 (case u16 d offset of
                    Inl p \<Rightarrow> Inl p
                  | Inr w \<Rightarrow> Inr (y + w, offset + 2))
               else Inr (y, offset)) = Inr (y + w, offset + 2)"
            using notshort full Inr by simp
          note IH = "1.IH" [OF True refl e refl]
          from bs have bs': "drop (Suc (Suc offset)) (elts d) = bs"
            using drop_Cons2_eq [OF bs] by simp
          show ?thesis
            using True notshort full Inr step [OF IH]
            by (subst decodeCoords_y.simps)
               (simp add: dri bs bs' w flagThisYIsSame_def Let_def split: option.splits)
        qed
      qed
    qed
  qed
qed


lemma zip_set_XY:
  "length xs = length ps \<Longrightarrow> length ys = length ps \<Longrightarrow>
   map (\<lambda>(p, c). p\<lparr>Y := c\<rparr>) (zip (map (\<lambda>(p, c). p\<lparr>X := c\<rparr>) (zip ps xs)) ys)
     = map (\<lambda>(p, x, y). p\<lparr>X := x, Y := y\<rparr>) (zip ps (zip xs ys))"
  by (auto simp: list_eq_iff_nth_eq)

lemma map_Flags_set_X:
  "length xs = length ps \<Longrightarrow> map Flags (map (\<lambda>(p, c). p\<lparr>X := c\<rparr>) (zip ps xs)) = map Flags ps"
  by (auto simp: list_eq_iff_nth_eq)

lemma decodeCoords_decodeAxis:
  "decodeCoords d offset np0 ps =
     (case decodeAxis flagXShortVector flagPositiveXShortVector 0
             (map Flags (drop np0 (elts ps))) (drop offset (elts d)) of
        None \<Rightarrow> Inl IndexOutOfRange
      | Some (xs, n) \<Rightarrow>
         (case decodeAxis flagYShortVector flagPositiveYShortVector 0
                 (map Flags (drop np0 (elts ps))) (drop (offset + n) (elts d)) of
            None \<Rightarrow> Inl IndexOutOfRange
          | Some (ys, m) \<Rightarrow>
              Inr (ps\<lparr>elts := take np0 (elts ps) @
                     map (\<lambda>(p, x, y). p\<lparr>X := x, Y := y\<rparr>) (zip (drop np0 (elts ps)) (zip xs ys))\<rparr>,
                   offset + n + m)))"
proof (cases "decodeAxis flagXShortVector flagPositiveXShortVector 0
             (map Flags (drop np0 (elts ps))) (drop offset (elts d))")
  case None
  then show ?thesis
    by (simp add: decodeCoords_def decodeCoords_x_spec)
next
  case (Some r)
  obtain xs n where r: "r = (xs, n)" by (cases r)
  from Some r have lx: "length xs = length (drop np0 (elts ps))"
    using decodeAxis_length by fastforce
  let ?ps1 = "ps\<lparr>elts := take np0 (elts ps) @ map (\<lambda>(p, c). p\<lparr>X := c\<rparr>) (zip (drop np0 (elts ps)) xs)\<rparr>"
  have x: "decodeCoords_x d offset 0 np0 ps = Inr (?ps1, offset + n)"
    using Some r by (simp add: decodeCoords_x_spec)
  have dr: "drop np0 (elts ?ps1) = map (\<lambda>(p, c). p\<lparr>X := c\<rparr>) (zip (drop np0 (elts ps)) xs)"
    using lx by (cases "np0 \<le> length (elts ps)") auto
  have tk: "take np0 (elts ?ps1) = take np0 (elts ps)"
    using lx by (cases "np0 \<le> length (elts ps)") auto
  have fl: "map Flags (drop np0 (elts ?ps1)) = map Flags (drop np0 (elts ps))"
    unfolding dr by (rule map_Flags_set_X) (use lx in simp)
  show ?thesis
  proof (cases "decodeAxis flagYShortVector flagPositiveYShortVector 0
                 (map Flags (drop np0 (elts ps))) (drop (offset + n) (elts d))")
    case None
    with Some r x fl show ?thesis
      by (simp add: decodeCoords_def decodeCoords_y_spec)
  next
    case (Some r')
    obtain ys m where r': "r' = (ys, m)" by (cases r')
    from Some r' have ly: "length ys = length (drop np0 (elts ps))"
      using decodeAxis_length by fastforce
    have "decodeCoords_y d (offset + n) 0 np0 ?ps1 =
        Inr (?ps1\<lparr>elts := take np0 (elts ?ps1) @
               map (\<lambda>(p, c). p\<lparr>Y := c\<rparr>) (zip (drop np0 (elts ?ps1)) ys)\<rparr>, offset + n + m)"
      using Some r' fl by (simp add: decodeCoords_y_spec)
    then have "decodeCoords_y d (offset + n) 0 np0 ?ps1 =
        Inr (ps\<lparr>elts := take np0 (elts ps) @
               map (\<lambda>(p, x, y). p\<lparr>X := x, Y := y\<rparr>) (zip (drop np0 (elts ps)) (zip xs ys))\<rparr>,
             offset + n + m)"
      unfolding tk dr using lx ly by (simp add: zip_set_XY)
    with x \<open>decodeAxis flagXShortVector flagPositiveXShortVector 0
             (map Flags (drop np0 (elts ps))) (drop offset (elts d)) = Some r\<close> r Some r'
    show ?thesis
      by (simp add: decodeCoords_def)
  qed
qed


lemmas coords_eval = decodeCoords_def decodeCoords_x.simps decodeCoords_y.simps len_def idx_def u16_def
  bytes_def points_def flagXShortVector_def flagYShortVector_def flagPositiveXShortVector_def
  flagPositiveYShortVector_def flagThisXIsSame_def flagThisYIsSame_def

lemma map_X_zip:
  "length xs = length ps \<Longrightarrow> length ys = length ps \<Longrightarrow>
   map X (map (\<lambda>(p, x, y). p\<lparr>X := x, Y := y\<rparr>) (zip ps (zip xs ys))) = xs"
  by (auto simp: list_eq_iff_nth_eq)

lemma map_Y_zip:
  "length xs = length ps \<Longrightarrow> length ys = length ps \<Longrightarrow>
   map Y (map (\<lambda>(p, x, y). p\<lparr>X := x, Y := y\<rparr>) (zip ps (zip xs ys))) = ys"
  by (auto simp: list_eq_iff_nth_eq)

lemma decodeAxis_same_first:
  "decodeAxis short same 0 (f # fs) bs = Some (cs, n) \<Longrightarrow> f AND short = 0 \<Longrightarrow> f AND same \<noteq> 0
     \<Longrightarrow> cs ! 0 = 0"
  by (auto split: if_splits)

lemma decodeCoords_Inr:
  assumes "decodeCoords d offset np0 ps = Inr (ps', offset')"
  obtains xs n ys m where
    "decodeAxis flagXShortVector flagPositiveXShortVector 0
       (map Flags (drop np0 (elts ps))) (drop offset (elts d)) = Some (xs, n)"
    "decodeAxis flagYShortVector flagPositiveYShortVector 0
       (map Flags (drop np0 (elts ps))) (drop (offset + n) (elts d)) = Some (ys, m)"
    "elts ps' = take np0 (elts ps) @
        map (\<lambda>(p, x, y). p\<lparr>X := x, Y := y\<rparr>) (zip (drop np0 (elts ps)) (zip xs ys))"
    "offset' = offset + n + m"
    "length xs = length (drop np0 (elts ps))" "length ys = length (drop np0 (elts ps))"
  using assms decodeAxis_length
  by (fastforce simp: decodeCoords_decodeAxis split: option.splits prod.splits)

text \<open>
  Claim C4. \<^verbatim>\<open>decodeCoords\<close> decodes all X co-ordinates of the point range in one
  full pass and then all Y co-ordinates in a second full pass over the bytes that
  follow; each pass is \<open>decodeAxis\<close> from accumulator 0: a 16-bit accumulator that
  wraps, one byte added or subtracted for a short vector, no byte and no change for
  "same", a two-byte big-endian delta otherwise, and the point's co-ordinate is the
  accumulator sign-extended to \<^verbatim>\<open>int32\<close>. The points before \<open>np0\<close> and all flags are
  as before; when the bytes run out the call panics.
\<close>

theorem decodeCoords_spec:
  "decodeCoords d offset np0 ps =
     (case decodeAxis flagXShortVector flagPositiveXShortVector 0
             (map Flags (drop np0 (elts ps))) (drop offset (elts d)) of
        None \<Rightarrow> Inl IndexOutOfRange
      | Some (xs, n) \<Rightarrow>
         (case decodeAxis flagYShortVector flagPositiveYShortVector 0
                 (map Flags (drop np0 (elts ps))) (drop (offset + n) (elts d)) of
            None \<Rightarrow> Inl IndexOutOfRange
          | Some (ys, m) \<Rightarrow>
              Inr (ps\<lparr>elts := take np0 (elts ps) @
                     map (\<lambda>(p, x, y). p\<lparr>X := x, Y := y\<rparr>) (zip (drop np0 (elts ps)) (zip xs ys))\<rparr>,
                   offset + n + m)))"
  by (rule decodeCoords_decodeAxis)

theorem decodeCoords_spec_witness:
  "decodeCoords (bytes [0x7F, 0xFF, 1, 3]) 0 0
      (points [\<lparr>X = 0, Y = 0, Flags = 0x21\<rparr>, \<lparr>X = 0, Y = 0, Flags = 0x33\<rparr>, \<lparr>X = 0, Y = 0, Flags = 0x14\<rparr>])
    = Inr (points [\<lparr>X = 32767, Y = 0, Flags = 0x21\<rparr>, \<lparr>X = - 32768, Y = 0, Flags = 0x33\<rparr>,
                   \<lparr>X = - 32768, Y = - 3, Flags = 0x14\<rparr>], 4)"
  using decodeCoords_spec [of "bytes [0x7F, 0xFF, 1, 3]" 0 0
      "points [\<lparr>X = 0, Y = 0, Flags = 0x21\<rparr>, \<lparr>X = 0, Y = 0, Flags = 0x33\<rparr>, \<lparr>X = 0, Y = 0, Flags = 0x14\<rparr>]"]
  by (simp add: coords_eval)

text \<open>
  Claim C10. Each call of \<^verbatim>\<open>decodeCoords\<close> starts its X and its Y accumulator at
  zero: when the first point of the range is flagged "same as previous" on an axis, its
  co-ordinate on that axis is 0; and the co-ordinates decoded for the range depend on
  the bytes and on the flags of the range only, not on what the buffer held before
  (the points of an earlier component or earlier co-ordinates), so nothing is carried
  over from one component's stream into the next.
\<close>

theorem decodeCoords_starts_at_zero:
  assumes r: "decodeCoords d offset np0 ps = Inr (ps', offset')" and i: "np0 < len ps"
  shows "(Flags (elts ps ! np0) AND flagXShortVector = 0 \<and>
          Flags (elts ps ! np0) AND flagThisXIsSame \<noteq> 0 \<longrightarrow> X (elts ps' ! np0) = 0) \<and>
         (Flags (elts ps ! np0) AND flagYShortVector = 0 \<and>
          Flags (elts ps ! np0) AND flagThisYIsSame \<noteq> 0 \<longrightarrow> Y (elts ps' ! np0) = 0) \<and>
         (\<forall>qs. map Flags (drop np0 (elts qs)) = map Flags (drop np0 (elts ps)) \<longrightarrow>
            (\<exists>qs'. decodeCoords d offset np0 qs = Inr (qs', offset') \<and>
               map X (drop np0 (elts qs')) = map X (drop np0 (elts ps')) \<and>
               map Y (drop np0 (elts qs')) = map Y (drop np0 (elts ps'))))"
proof -
  from r obtain xs n ys m where
    x: "decodeAxis flagXShortVector flagPositiveXShortVector 0
       (map Flags (drop np0 (elts ps))) (drop offset (elts d)) = Some (xs, n)" and
    y: "decodeAxis flagYShortVector flagPositiveYShortVector 0
       (map Flags (drop np0 (elts ps))) (drop (offset + n) (elts d)) = Some (ys, m)" and
    e: "elts ps' = take np0 (elts ps) @
        map (\<lambda>(p, x, y). p\<lparr>X := x, Y := y\<rparr>) (zip (drop np0 (elts ps)) (zip xs ys))" and
    o: "offset' = offset + n + m" and
    lx: "length xs = length (drop np0 (elts ps))" and ly: "length ys = length (drop np0 (elts ps))"
    by (rule decodeCoords_Inr)
  from i have dr: "drop np0 (elts ps) = elts ps ! np0 # drop (Suc np0) (elts ps)"
    by (simp add: len_def Cons_nth_drop_Suc)
  from i have le: "np0 \<le> length (elts ps)" by (simp add: len_def)
  from e le have dps: "drop np0 (elts ps')
      = map (\<lambda>(p, x, y). p\<lparr>X := x, Y := y\<rparr>) (zip (drop np0 (elts ps)) (zip xs ys))"
    by simp
  have mx: "map X (drop np0 (elts ps')) = xs" unfolding dps using lx ly by (rule map_X_zip)
  have my: "map Y (drop np0 (elts ps')) = ys" unfolding dps using lx ly by (rule map_Y_zip)
  from i lx ly e have l': "np0 < length (elts ps')" by (simp add: len_def)
  then have n0: "elts ps' ! np0 = drop np0 (elts ps') ! 0" by simp
  from lx ly i have pos: "0 < length xs" "0 < length ys" by (simp_all add: len_def)
  have X0: "X (elts ps' ! np0) = xs ! 0"
    using mx pos l' by (metis n0 length_drop length_map nth_map zero_less_diff)
  have Y0: "Y (elts ps' ! np0) = ys ! 0"
    using my pos l' by (metis n0 length_drop length_map nth_map zero_less_diff)
  have 1: "X (elts ps' ! np0) = 0"
    if "Flags (elts ps ! np0) AND flagXShortVector = 0" "Flags (elts ps ! np0) AND flagThisXIsSame \<noteq> 0"
    using x that unfolding X0 dr flagThisXIsSame_def
    by (simp only: list.map) (rule decodeAxis_same_first)
  have 2: "Y (elts ps' ! np0) = 0"
    if "Flags (elts ps ! np0) AND flagYShortVector = 0" "Flags (elts ps ! np0) AND flagThisYIsSame \<noteq> 0"
    using y that unfolding Y0 dr flagThisYIsSame_def
    by (simp only: list.map) (rule decodeAxis_same_first)
  have 3: "\<exists>qs'. decodeCoords d offset np0 qs = Inr (qs', offset') \<and>
               map X (drop np0 (elts qs')) = map X (drop np0 (elts ps')) \<and>
               map Y (drop np0 (elts qs')) = map Y (drop np0 (elts ps'))"
    if f: "map Flags (drop np0 (elts qs)) = map Flags (drop np0 (elts ps))" for qs
  proof -
    from f have lq: "length (drop np0 (elts qs)) = length (drop np0 (elts ps))"
      by (metis length_map)
    with i have leq: "np0 \<le> length (elts qs)" by (simp add: len_def)
    let ?qs' = "qs\<lparr>elts := take np0 (elts qs) @
        map (\<lambda>(p, x, y). p\<lparr>X := x, Y := y\<rparr>) (zip (drop np0 (elts qs)) (zip xs ys))\<rparr>"
    have "decodeCoords d offset np0 qs = Inr (?qs', offset')"
      using x y o f by (simp add: decodeCoords_decodeAxis)
    moreover from leq have dq: "drop np0 (elts ?qs')
       = map (\<lambda>(p, x, y). p\<lparr>X := x, Y := y\<rparr>) (zip (drop np0 (elts qs)) (zip xs ys))"
      by simp
    have "map X (drop np0 (elts ?qs')) = xs"
      unfolding dq using lx ly lq by (intro map_X_zip) simp_all
    moreover have "map Y (drop np0 (elts ?qs')) = ys"
      unfolding dq using lx ly lq by (intro map_Y_zip) simp_all
    ultimately show ?thesis using mx my by blast
  qed
  from 1 2 3 show ?thesis by blast
qed

theorem decodeCoords_starts_at_zero_witness:
  "decodeCoords (bytes [2]) 0 1
      (points [\<lparr>X = 5, Y = 7, Flags = 1\<rparr>, \<lparr>X = 9, Y = 9, Flags = 0x31\<rparr>, \<lparr>X = 9, Y = 9, Flags = 0x32\<rparr>])
     = Inr (points [\<lparr>X = 5, Y = 7, Flags = 1\<rparr>, \<lparr>X = 0, Y = 0, Flags = 0x31\<rparr>,
                    \<lparr>X = 2, Y = 0, Flags = 0x32\<rparr>], 1) \<and>
   X (elts (points [\<lparr>X = 5, Y = 7, Flags = 1\<rparr>, \<lparr>X = 0, Y = 0, Flags = 0x31\<rparr>,
                    \<lparr>X = 2, Y = 0, Flags = 0x32\<rparr>]) ! 1) = 0"
proof -
  let ?P = "points [\<lparr>X = 5, Y = 7, Flags = 1\<rparr>, \<lparr>X = 9, Y = 9, Flags = 0x31\<rparr>, \<lparr>X = 9, Y = 9, Flags = 0x32\<rparr>]"
  let ?P' = "points [\<lparr>X = 5, Y = 7, Flags = 1\<rparr>, \<lparr>X = 0, Y = 0, Flags = 0x31\<rparr>,
                    \<lparr>X = 2, Y = 0, Flags = 0x32\<rparr>]"
  have h1: "decodeCoords (bytes [2]) 0 1 ?P = Inr (?P', 1)"
    by (simp add: coords_eval)
  have h2: "1 < len ?P"
    by (simp add: len_def points_def)
  from decodeCoords_starts_at_zero [OF h1 h2] have "X (elts ?P' ! 1) = 0"
    by (simp add: points_def flagXShortVector_def flagThisXIsSame_def flagPositiveXShortVector_def)
  with h1 show ?thesis by simp
qed

section \<open>Properties of the simple-glyph loader\<close>

lemma length_mapRange [simp]: "length (mapRange i n f xs) = length xs"
  by (auto simp: mapRange_def)

lemma nth_mapRange:
  "j < length xs \<Longrightarrow> mapRange i n f xs ! j = (if i \<le> j \<and> j < n then f (xs ! j) else xs ! j)"
  by (auto simp: mapRange_def nth_append min_def)

lemma mapRange_empty [simp]: "n \<le> i \<Longrightarrow> mapRange i n f xs = xs"
  by (auto simp: list_eq_iff_nth_eq nth_mapRange)

lemma mapRange_step:
  "i < n \<Longrightarrow> i < length xs \<Longrightarrow> mapRange (Suc i) n f (xs[i := f (xs ! i)]) = mapRange i n f xs"
  by (auto simp: list_eq_iff_nth_eq nth_mapRange nth_list_update)

lemma scaleRounded_closed:
  "np \<le> len ps \<Longrightarrow>
   scaleRounded f scale dx dy i np ps =
     Inr (ps\<lparr>elts := mapRange i np
            (\<lambda>p. p\<lparr>X := dx + Font_scale f (scale * X p), Y := dy + Font_scale f (scale * Y p)\<rparr>)
            (elts ps)\<rparr>)"
proof (induction f scale dx dy i np ps rule: scaleRounded.induct)
  case (1 f scale dx dy i np ps)
  show ?case
  proof (cases "i < np")
    case True
    with "1.prems" have l: "i < length (elts ps)" by (simp add: len_def)
    from "1.prems" have "np \<le> len (ps\<lparr>elts := (elts ps)[i := (elts ps ! i)
                   \<lparr>X := dx + Font_scale f (scale * X (elts ps ! i)),
                    Y := dy + Font_scale f (scale * Y (elts ps ! i))\<rparr>]\<rparr>)"
      by (simp add: len_def)
    note IH = "1.IH" [OF True l this]
    show ?thesis
      using True l IH mapRange_step [OF True l,
          of "\<lambda>p. p\<lparr>X := dx + Font_scale f (scale * X p), Y := dy + Font_scale f (scale * Y p)\<rparr>"]
      by (subst scaleRounded.simps) simp
  next
    case False
    then show ?thesis by (subst scaleRounded.simps) simp
  qed
qed

lemma scaleUnrounded_closed:
  "np \<le> len ps \<Longrightarrow>
   scaleUnrounded f scale dx dy i np ps =
     Inr (ps\<lparr>elts := mapRange i np
            (\<lambda>p. p\<lparr>X := Font_scale f (scale * (X p + dx)), Y := Font_scale f (scale * (Y p + dy))\<rparr>)
            (elts ps)\<rparr>)"
proof (induction f scale dx dy i np ps rule: scaleUnrounded.induct)
  case (1 f scale dx dy i np ps)
  show ?case
  proof (cases "i < np")
    case True
    with "1.prems" have l: "i < length (elts ps)" by (simp add: len_def)
    from "1.prems" have "np \<le> len (ps\<lparr>elts := (elts ps)[i := (elts ps ! i)
                   \<lparr>X := Font_scale f (scale * (X (elts ps ! i) + dx)),
                    Y := Font_scale f (scale * (Y (elts ps ! i) + dy))\<rparr>]\<rparr>)"
      by (simp add: len_def)
    note IH = "1.IH" [OF True l this]
    show ?thesis
      using True l IH mapRange_step [OF True l,
          of "\<lambda>p. p\<lparr>X := Font_scale f (scale * (X p + dx)), Y := Font_scale f (scale * (Y p + dy))\<rparr>"]
      by (subst scaleUnrounded.simps) simp
  next
    case False
    then show ?thesis by (subst scaleUnrounded.simps) simp
  qed
qed

lemma scalePoints_closed:
  "np \<le> len ps \<Longrightarrow>
   scalePoints f scale dx dy roundDxDy np0 np ps =
     Inr (ps\<lparr>elts := mapRange np0 np (scaleXY f scale dx dy roundDxDy) (elts ps)\<rparr>)"
  by (cases roundDxDy)
     (simp_all add: scalePoints_def scaleRounded_closed scaleUnrounded_closed scaleXY_def [abs_def])


lemma decodeFlags_len: "decodeFlags d offset np0 ps = Inr (ps', offset') \<Longrightarrow> len ps' = len ps"
  using decodeFlags_loop_result [of d offset np0 ps ps' offset'] by (simp add: decodeFlags_def)

lemma decodeCoords_len: "decodeCoords d offset np0 ps = Inr (ps', offset') \<Longrightarrow> len ps' = len ps"
  by (erule decodeCoords_Inr) (simp add: len_def)

lemma len_reslice0: "reslice s 0 n = Inr s' \<Longrightarrow> len s' = n"
  by (auto simp: reslice_def len_def cap_def split: if_splits)

lemma len_copy_make [simp]: "len (copy_slice (make_slice z n c) src) = n"
  by (simp add: copy_slice_def make_slice_def len_def)

lemma decodeGlyph_np:
  assumes "decodeGlyph gl n offset g = Inr (g1, program, np0, np)"
  shows "np0 = len (Point g) \<and> np = len (Point g1)"
  using assms
  by (auto simp: decodeGlyph_def Let_def split: sum.splits if_splits prod.splits
      dest!: decodeFlags_len decodeCoords_len len_reslice0)

lemma replicate_numeral_Cons: "replicate (numeral k) x = x # replicate (pred_numeral k) x"
  by (simp add: numeral_eq_Suc)

lemmas load_eval = replicate_numeral_Cons loadSimple_def decodeGlyph_def decodeEnds.simps setEnd_def reslice_def cap_def
  make_slice_def copy_slice_def snapshotInFontUnits_def scalePoints_def scaleRounded.simps
  scaleUnrounded.simps snapshotAndHint_def decodeFlags_def decodeFlags_loop.simps setFlags_def
  flagRepeat_def coords_eval emptyBuf_def glyphA_def zeroBounds_def zeroPoint_def Let_def

text \<open>
  Claim C6. The scaling step applies one of two policies, chosen by the rounding flag.
  For a simple glyph loaded without a hinter, every point of the glyph (the indices
  from the old length of \<open>Point\<close> on) ends as its decoded raw point \<open>g1\<close> with, when
  unrounded, \<open>X = scaleFn (scale * (raw X + dx))\<close>, and when grid-rounded,
  \<open>X = ((scaleFn (scale * dx) + 32) AND NOT 63) + scaleFn (scale * raw X)\<close>; \<open>Y\<close> likewise
  with \<open>dy\<close>, each axis on its own. The flags and the earlier points are not touched.
\<close>

theorem loadSimple_scaling:
  assumes "loadSimple f scale None gl n offset dx dy roundDxDy g = Inr (g', h', err)"
  shows "\<exists>g1 program.
     decodeGlyph gl n offset g = Inr (g1, program, len (Point g), len (Point g1)) \<and>
     err = None \<and> len (Point g') = len (Point g1) \<and>
     (\<forall>j<len (Point g1).
        elts (Point g') ! j =
          (if len (Point g) \<le> j then
             (if roundDxDy then
                (elts (Point g1) ! j)
                  \<lparr>X := ((Font_scale f (scale * dx) + 32) AND NOT 63)
                          + Font_scale f (scale * X (elts (Point g1) ! j)),
                   Y := ((Font_scale f (scale * dy) + 32) AND NOT 63)
                          + Font_scale f (scale * Y (elts (Point g1) ! j))\<rparr>
              else
                (elts (Point g1) ! j)
                  \<lparr>X := Font_scale f (scale * (X (elts (Point g1) ! j) + dx)),
                   Y := Font_scale f (scale * (Y (elts (Point g1) ! j) + dy))\<rparr>)
           else elts (Point g1) ! j))"
proof -
  from assms obtain g1 program np0 np where d: "decodeGlyph gl n offset g = Inr (g1, program, np0, np)"
    by (auto simp: loadSimple_def split: sum.splits)
  from decodeGlyph_np [OF d] have np0: "np0 = len (Point g)" and np: "np = len (Point g1)"
    by simp_all
  have sc: "scalePoints f scale dx dy roundDxDy np0 np (Point g1) =
      Inr ((Point g1)\<lparr>elts := mapRange np0 np (scaleXY f scale dx dy roundDxDy) (elts (Point g1))\<rparr>)"
    by (rule scalePoints_closed) (simp add: np)
  from assms d sc have g': "g' = g1\<lparr>Point := (Point g1)\<lparr>elts := mapRange np0 np (scaleXY f scale dx dy roundDxDy) (elts (Point g1))\<rparr>\<rparr>"
    and e: "err = None"
    by (simp_all add: loadSimple_def snapshotInFontUnits_def snapshotAndHint_def)
  have "elts (Point g') ! j =
          (if np0 \<le> j then scaleXY f scale dx dy roundDxDy (elts (Point g1) ! j)
           else elts (Point g1) ! j)" if "j < len (Point g1)" for j
    using that by (simp add: g' nth_mapRange np len_def)
  moreover have "len (Point g') = len (Point g1)"
    by (simp add: g' len_def)
  ultimately show ?thesis
    using d e unfolding np0 np by (auto simp: scaleXY_def)
qed

theorem loadSimple_scaling_witness:
  "loadSimple fontId 2 (None :: unit Hinter option) (bytes glyphA) 1 10 40 0 True emptyBuf
   = Inr (\<lparr>B = zeroBounds, Point = \<lparr>elts = [\<lparr>X = 70, Y = 8, Flags = 0x37\<rparr>, \<lparr>X = 72, Y = 12, Flags = 0x37\<rparr>],
         spare = [zeroPoint, zeroPoint]\<rparr>, Unhinted = [], InFontUnits = [],
               Twilight = [], End = \<lparr>elts = [2], spare = [0]\<rparr>\<rparr>, None, None) \<and>
   loadSimple fontId 2 (None :: unit Hinter option) (bytes glyphA) 1 10 40 0 False emptyBuf
   = Inr (\<lparr>B = zeroBounds, Point = \<lparr>elts = [\<lparr>X = 86, Y = 8, Flags = 0x37\<rparr>, \<lparr>X = 88, Y = 12, Flags = 0x37\<rparr>],
         spare = [zeroPoint, zeroPoint]\<rparr>, Unhinted = [], InFontUnits = [],
               Twilight = [], End = \<lparr>elts = [2], spare = [0]\<rparr>\<rparr>, None, None)"
proof -
  have 1: "loadSimple fontId 2 (None :: unit Hinter option) (bytes glyphA) 1 10 40 0 True emptyBuf
   = Inr (\<lparr>B = zeroBounds, Point = \<lparr>elts = [\<lparr>X = 70, Y = 8, Flags = 0x37\<rparr>, \<lparr>X = 72, Y = 12, Flags = 0x37\<rparr>],
         spare = [zeroPoint, zeroPoint]\<rparr>, Unhinted = [], InFontUnits = [],
               Twilight = [], End = \<lparr>elts = [2], spare = [0]\<rparr>\<rparr>, None, None)"
    by (simp add: load_eval fontId_def)
  have 2: "loadSimple fontId 2 (None :: unit Hinter option) (bytes glyphA) 1 10 40 0 False emptyBuf
   = Inr (\<lparr>B = zeroBounds, Point = \<lparr>elts = [\<lparr>X = 86, Y = 8, Flags = 0x37\<rparr>, \<lparr>X = 88, Y = 12, Flags = 0x37\<rparr>],
         spare = [zeroPoint, zeroPoint]\<rparr>, Unhinted = [], InFontUnits = [],
               Twilight = [], End = \<lparr>elts = [2], spare = [0]\<rparr>\<rparr>, None, None)"
    by (simp add: load_eval fontId_def)
  from loadSimple_scaling [OF 1] loadSimple_scaling [OF 2] 1 2 show ?thesis by simp
qed

section \<open>Properties of load, loadCompound and Load\<close>

lemma componentArgs_offsets:
  "componentArgs gl offset flags dx dy = Inr (dx1, dy1, offset1) \<Longrightarrow>
   \<exists>a b. componentArgs gl offset flags dx' dy' = Inr (a, b, offset1)"
  by (auto simp: componentArgs_def split: if_splits sum.splits)

lemma componentArgs_panic:
  "componentArgs gl offset flags dx dy = Inl p \<Longrightarrow> componentArgs gl offset flags dx' dy' = Inl p"
  by (auto simp: componentArgs_def split: if_splits sum.splits)

lemma loadCompound_verdict:
  "loadCompound f scale h gl offset dx dy recursion g = Inr (g', h', err) \<Longrightarrow>
   componentsVerdict gl offset = Inr err"
proof (induction f scale h gl offset dx dy recursion g arbitrary: g' h' err
    rule: load_loadCompound.induct(2) [where P = "\<lambda>f scale i h dx dy r recursion g. True"])
  case 1
  show ?case by simp
next
  case (2 f scale h gl offset dx dy recursion g)
  from "2.prems" obtain flags component dx1 dy1 offset1 where
    fl: "u16 gl offset = Inr flags" and co: "u16 gl (offset + 2) = Inr component" and
    ar: "componentArgs gl offset flags dx dy = Inr (dx1, dy1, offset1)"
    by (subst (asm) loadCompound.simps) (auto split: sum.splits)
  from componentArgs_offsets [OF ar] obtain a b where
    ar0: "componentArgs gl offset flags 0 0 = Inr (a, b, offset1)" by blast
  show ?case
  proof (cases "flags AND flagArgsAreXYValues = 0 \<or>
      flags AND (flagWeHaveAScale OR flagWeHaveAnXAndYScale OR flagWeHaveATwoByTwo) \<noteq> 0")
    case True
    with "2.prems" fl co ar ar0 show ?thesis
      by (subst componentsVerdict.simps, subst (asm) loadCompound.simps) auto
  next
    case False
    then have xy: "flags AND flagArgsAreXYValues \<noteq> 0"
      and ns: "\<not> flags AND (flagWeHaveAScale OR flagWeHaveAnXAndYScale OR flagWeHaveATwoByTwo) \<noteq> 0"
      by simp_all
    from "2.prems" fl co ar xy ns obtain g1 h1 e where
      ld: "load f scale component h dx1 dy1 (flags AND flagRoundXYToGrid \<noteq> 0) (recursion + 1) g
            = Inr (g1, h1, e)"
      by (subst (asm) loadCompound.simps) (auto split: sum.splits)
    let ?g2 = "if flags AND flagUseMyMetrics = 0 then g1\<lparr>B := B g\<rparr> else g1"
    show ?thesis
    proof (cases "flags AND flagMoreComponents = 0")
      case True
      with "2.prems" fl co ar ar0 xy ns ld show ?thesis
        by (subst componentsVerdict.simps, subst (asm) loadCompound.simps) (auto simp: Let_def)
    next
      case False
      with "2.prems" fl co ar xy ns ld
      have r: "loadCompound f scale h1 gl offset1 dx dy recursion ?g2 = Inr (g', h', err)"
        by (subst (asm) loadCompound.simps) (simp add: Let_def)
      have "componentsVerdict gl offset1 = Inr err"
        by (rule "2.IH" [OF fl co ar refl refl xy ns ld refl refl refl False r])
      with fl co ar0 xy ns False show ?thesis
        by (subst componentsVerdict.simps) simp
    qed
  qed
qed


lemmas compound_eval = load.simps loadCompound.simps glyphRange_def u32_def headerBounds_def
  componentArgs_def flagArg1And2AreWords_def flagArgsAreXYValues_def flagRoundXYToGrid_def
  flagWeHaveAScale_def flagMoreComponents_def flagWeHaveAnXAndYScale_def flagWeHaveATwoByTwo_def
  flagUseMyMetrics_def fontC_def glyphC_def glyphBad_def selfref_def bufA_def fontZ_def
  Load_def resetGlyphBuf_def truncate0_def componentsVerdict.simps load_eval

lemma componentsVerdict_range:
  "componentsVerdict gl offset = Inr (Some e) \<Longrightarrow>
   e = UnsupportedError ''compound glyph transform vector'' \<or>
   e = UnsupportedError ''compound glyph scale/transform''"
proof (induction gl offset rule: componentsVerdict.induct)
  case (1 gl offset)
  from "1.prems" show ?case
    by (subst (asm) componentsVerdict.simps)
       (auto split: sum.splits if_splits dest: "1.IH")
qed

lemma loadSimple_None:
  "loadSimple f scale None gl n offset dx dy roundDxDy g = Inr (g', h', err) \<Longrightarrow>
   err = None \<and> h' = None"
  by (auto simp: loadSimple_def snapshotAndHint_def split: sum.splits prod.splits)

lemma load_None_errors:
  assumes "load f scale i None dx dy roundDxDy 0 g = Inr (g', h', Some e)"
  shows "e = UnsupportedError ''negative number of contours'' \<or>
         e = UnsupportedError ''compound glyph transform vector'' \<or>
         e = UnsupportedError ''compound glyph scale/transform''"
  using assms
  by (subst (asm) load.simps)
     (auto split: sum.splits if_splits prod.splits
           dest!: loadSimple_None loadCompound_verdict componentsVerdict_range)

text \<open>
  Claim C1 fails on the code. \<^verbatim>\<open>load\<close> rejects a call whose recursion counter has
  reached 4 with the error "excessive compound glyph recursion", but its only
  caller with a counter above 0 is line 182 of \<^verbatim>\<open>loadCompound\<close>, which drops the value
  returned: without a hinter, \<^verbatim>\<open>Load\<close> never returns that error, whatever the font. On
  \<open>selfref\<close>, a glyph nested in itself without end, the call at depth 4 is rejected
  and \<^verbatim>\<open>Load\<close> returns nil.
\<close>

theorem Load_never_reports_recursion:
  "Load f scale i (None :: 'h Hinter option) g
     \<noteq> Inr (g', h', Some (UnsupportedError ''excessive compound glyph recursion'')) \<and>
   load selfref 1 0 (None :: unit Hinter option) 0 0 False 4 emptyBuf
     = Inr (emptyBuf, None, Some (UnsupportedError ''excessive compound glyph recursion'')) \<and>
   Load selfref 1 0 (None :: unit Hinter option) emptyBuf = Inr (emptyBuf, None, None)"
proof (intro conjI)
  show "Load f scale i (None :: 'h Hinter option) g
     \<noteq> Inr (g', h', Some (UnsupportedError ''excessive compound glyph recursion''))"
    by (auto simp: Load_def split: sum.splits prod.splits option.splits dest!: load_None_errors)
  show "load selfref 1 0 (None :: unit Hinter option) 0 0 False 4 emptyBuf
     = Inr (emptyBuf, None, Some (UnsupportedError ''excessive compound glyph recursion''))"
    by (simp add: load.simps)
  show "Load selfref 1 0 (None :: unit Hinter option) emptyBuf = Inr (emptyBuf, None, None)"
    by (simp add: compound_eval)
qed




text \<open>
  Claim C7. One round of \<^verbatim>\<open>loadCompound\<close>, for a component record that passes its two
  checks and whose load returns the buffer \<open>g1\<close>: the round goes on (or returns) with
  \<open>g1\<close> and the bounds \<open>B g\<close> that the buffer had before the component was loaded when
  "use my metrics" is unset, and with the bounds \<open>B g1\<close> that loading the component
  produced when it is set.
\<close>

theorem loadCompound_bounds:
  assumes "u16 gl offset = Inr flags" and "u16 gl (offset + 2) = Inr component"
    and "componentArgs gl offset flags dx dy = Inr (dx1, dy1, offset1)"
    and "flags AND flagArgsAreXYValues \<noteq> 0"
    and "flags AND (flagWeHaveAScale OR flagWeHaveAnXAndYScale OR flagWeHaveATwoByTwo) = 0"
    and "load f scale component h dx1 dy1 (flags AND flagRoundXYToGrid \<noteq> 0) (recursion + 1) g
           = Inr (g1, h1, e)"
  shows "loadCompound f scale h gl offset dx dy recursion g =
           (if flags AND flagMoreComponents = 0
            then Inr (g1\<lparr>B := if flags AND flagUseMyMetrics = 0 then B g else B g1\<rparr>, h1, None)
            else loadCompound f scale h1 gl offset1 dx dy recursion
                   (g1\<lparr>B := if flags AND flagUseMyMetrics = 0 then B g else B g1\<rparr>))"
  using assms by (subst loadCompound.simps) (simp add: Let_def)

theorem loadCompound_bounds_witness:
  "load fontC 1 1 (None :: unit Hinter option) 0 0 False 1 emptyBuf = Inr (bufA, None, None) \<and>
   loadCompound fontC 1 (None :: unit Hinter option) (bytes glyphC) 10 0 0 0 emptyBuf
     = loadCompound fontC 1 None (bytes glyphC) 16 0 0 0 bufA \<and>
   load fontC 1 2 (None :: unit Hinter option) 5 0 False 1 bufA
     = Inr (bufA\<lparr>B := \<lparr>XMin = 1, YMin = 1, XMax = 1, YMax = 1\<rparr>\<rparr>, None,
            Some (UnsupportedError ''negative number of contours'')) \<and>
   loadCompound fontC 1 (None :: unit Hinter option) (bytes glyphC) 16 0 0 0 bufA
     = Inr (bufA, None, None)"
proof -
  have c1: "u16 (bytes glyphC) 10 = Inr 0x222" "u16 (bytes glyphC) (10 + 2) = Inr 1"
    "componentArgs (bytes glyphC) 10 0x222 0 0 = Inr (0, 0, 16)"
    "(0x222 :: uint16) AND flagArgsAreXYValues \<noteq> 0"
    "(0x222 :: uint16) AND (flagWeHaveAScale OR flagWeHaveAnXAndYScale OR flagWeHaveATwoByTwo) = 0"
    by (simp_all add: compound_eval)
  have l1: "load fontC 1 1 (None :: unit Hinter option) 0 0 ((0x222 :: uint16) AND flagRoundXYToGrid \<noteq> 0) (0 + 1) emptyBuf
      = Inr (bufA, None, None)"
    by (simp add: compound_eval)
  have c2: "u16 (bytes glyphC) 16 = Inr 2" "u16 (bytes glyphC) (16 + 2) = Inr 2"
    "componentArgs (bytes glyphC) 16 2 0 0 = Inr (5, 0, 22)"
    "(2 :: uint16) AND flagArgsAreXYValues \<noteq> 0"
    "(2 :: uint16) AND (flagWeHaveAScale OR flagWeHaveAnXAndYScale OR flagWeHaveATwoByTwo) = 0"
    by (simp_all add: compound_eval)
  have l2: "load fontC 1 2 (None :: unit Hinter option) 5 0 ((2 :: uint16) AND flagRoundXYToGrid \<noteq> 0) (0 + 1) bufA
      = Inr (bufA\<lparr>B := \<lparr>XMin = 1, YMin = 1, XMax = 1, YMax = 1\<rparr>\<rparr>, None,
            Some (UnsupportedError ''negative number of contours''))"
    by (simp add: compound_eval)
  from loadCompound_bounds [OF c1 l1] loadCompound_bounds [OF c2 l2] l1 l2
  show ?thesis
    by (simp add: flagMoreComponents_def flagUseMyMetrics_def flagRoundXYToGrid_def bufA_def)
qed

text \<open>
  Claim C9. When the \<^verbatim>\<open>loca\<close> entry of the glyph has length zero (\<open>g0 = g1\<close>), \<^verbatim>\<open>Load\<close>
  returns nil and leaves \<open>Point\<close> and \<open>End\<close> empty. With a hinter this needs its
  \<^verbatim>\<open>init\<close> to return nil and not to add points or contours itself.
\<close>

theorem Load_zero_length:
  assumes "glyphRange f i = Inr (a, a)"
    and "h = None \<or>
         (\<exists>hh g1 hh'. h = Some hh \<and> hinit hh (resetGlyphBuf g) f scale = Inr (g1, hh', None) \<and>
            elts (Point g1) = [] \<and> elts (End g1) = [])"
  shows "\<exists>g' h'. Load f scale i h g = Inr (g', h', None) \<and>
           elts (Point g') = [] \<and> elts (End g') = []"
  using assms
  by (auto simp: Load_def load.simps resetGlyphBuf_def truncate0_def)

theorem Load_zero_length_witness:
  "glyphRange fontZ 0 = Inr (5, 5) \<and>
   Load fontZ 7 0 (None :: unit Hinter option) bufA
     = Inr (\<lparr>B = zeroBounds, Point = \<lparr>elts = [], spare = elts (Point bufA) @ spare (Point bufA)\<rparr>,
             Unhinted = [], InFontUnits = [], Twilight = [],
             End = \<lparr>elts = [], spare = [2, 0]\<rparr>\<rparr>, None, None)"
proof -
  have 1: "glyphRange fontZ 0 = Inr (5, 5)"
    by (simp add: compound_eval)
  from Load_zero_length [OF 1, of "None :: unit Hinter option" bufA 7] 1 show ?thesis
    by (simp add: compound_eval)
qed

section \<open>The contours after Load\<close>

lemma length_endPts [simp]: "length (endPts gl offset n) = n"
  by (induction n arbitrary: offset) auto
















lemma keeps_refl [simp]: "keeps g g"
  by (simp add: keeps_def)


lemma contoursOK_B [simp]: "contoursOK (g\<lparr>B := b\<rparr>) = contoursOK g"
  by (simp add: contoursOK_def)

lemma keeps_B_left [simp]: "keeps (g\<lparr>B := b\<rparr>) g' = keeps g g'"
  by (simp add: keeps_def)

lemma keeps_B_right [simp]: "keeps g (g'\<lparr>B := b\<rparr>) = keeps g g'"
  by (simp add: keeps_def)


















text \<open>
  The condition on the capacity of \<open>End\<close> cannot be dropped for compound glyphs.
  When the contours of a later component no longer fit, line 232 replaces \<open>End\<close> by
  a new array and does not copy the entries it holds (line 252 does copy the points).
  Loaded into a buffer without capacity, the third component of \<open>fontE\<close>'s glyph 0
  makes \<open>End\<close> grow beyond its capacity 2; the contour ends 2 and 4 of the first two
  components are lost.
\<close>

lemma Load_End_reallocated:
  "Load fontE 1 0 (None :: unit Hinter option) emptyBuf
     = Inr (\<lparr>B = \<lparr>XMin = 0, YMin = 0, XMax = 9, YMax = 9\<rparr>,
             Point = \<lparr>elts = [\<lparr>X = 3, Y = 4, Flags = 0x37\<rparr>, \<lparr>X = 4, Y = 6, Flags = 0x37\<rparr>,
                              \<lparr>X = 3, Y = 4, Flags = 0x37\<rparr>, \<lparr>X = 4, Y = 6, Flags = 0x37\<rparr>,
                              \<lparr>X = 3, Y = 4, Flags = 0x37\<rparr>, \<lparr>X = 4, Y = 6, Flags = 0x37\<rparr>],
                      spare = replicate 6 zeroPoint\<rparr>,
             Unhinted = [], InFontUnits = [], Twilight = [],
             End = \<lparr>elts = [0, 0, 6], spare = [0, 0, 0]\<rparr>\<rparr>, None, None)"
  by (simp add: compound_eval fontE_def glyphE_def)

end
